theory Spec2Isabelle
  imports Main "HOL-Library.Word"
begin

section \<open>The decon board sequencer (decon\_board.c)\<close>

text \<open>
  A shallow embedding of \<^verbatim>\<open>drivers/video/fbdev/exynos/dpu_7885/decon_board.c\<close>:
  the builder (\<^verbatim>\<open>decide_type\<close>, \<^verbatim>\<open>decide_subinfo\<close>, \<^verbatim>\<open>find_timer\<close>,
  \<^verbatim>\<open>make_list\<close>), the executor (\<^verbatim>\<open>do_list\<close>) and the entry point
  (\<^verbatim>\<open>find_list\<close>, \<^verbatim>\<open>run_list\<close>).

  Conventions.
  \<^item> \<^verbatim>\<open>unsigned int\<close> is \<open>32 word\<close>, \<^verbatim>\<open>u64\<close> is \<open>64 word\<close>; \<^verbatim>\<open>long\<close> is 64 bits
    wide (the driver is built for arm64), so the \<^verbatim>\<open>long\<close> constants of the time
    macros are \<open>64 word\<close>s, and an \<^verbatim>\<open>unsigned int\<close> compared with one of them is
    widened first (\<open>ucast\<close>). \<^verbatim>\<open>int\<close> results (\<^verbatim>\<open>ret\<close>, gpio numbers) are
    \<open>int\<close>: no arithmetic is done on them.
  \<^item> A C string is a \<open>string\<close>; a pointer that may be \<^verbatim>\<open>NULL\<close> is an \<open>option\<close>.
  \<^item> The timers live in a store (\<open>timers\<close>, a list; a pointer is an index), because
    actions of different lists share them.
  \<^item> \<^verbatim>\<open>BUG()\<close>, \<^verbatim>\<open>BUG_ON\<close> and the dereference of a \<^verbatim>\<open>NULL\<close> pointer end the
    execution: they are the \<open>Inl\<close> results, which carry the state reached.
  \<^item> Every call to a hardware or device-tree collaborator is taken from the
    environment \<open>env\<close>; calls with an effect are appended to the \<open>trace\<close>.
  \<^item> \<^verbatim>\<open>kzalloc\<close> and \<^verbatim>\<open>kstrdup\<close> are assumed to succeed. Log output
    (\<^verbatim>\<open>dbg_info\<close>, \<^verbatim>\<open>dbg_warn\<close>, \<^verbatim>\<open>print_timer\<close>, \<^verbatim>\<open>dump_list\<close>) changes no state and is
    left out.
\<close>

type_synonym u32 = "32 word"
type_synonym u64 = "64 word"

subsection \<open>Constants and macros\<close>

definition EINVAL :: int where "EINVAL = 22"
definition SMALL_MSECS :: u64 where "SMALL_MSECS = 20"
definition USEC_PER_MSEC :: u64 where "USEC_PER_MSEC = 1000"
definition NSEC_PER_MSEC :: u64 where "NSEC_PER_MSEC = 1000000"
definition NSEC_PER_USEC :: u64 where "NSEC_PER_USEC = 1000"
definition UINT_MAX :: u64 where "UINT_MAX = 4294967295"
definition SHRT_MAX :: nat where "SHRT_MAX = 32767"

text \<open>\<^verbatim>\<open>#define MSEC_TO_USEC(ms) (ms * USEC_PER_MSEC)\<close>,
  \<^verbatim>\<open>#define USEC_TO_MSEC(us) (us / USEC_PER_MSEC)\<close>.\<close>

definition MSEC_TO_USEC :: "u64 \<Rightarrow> u64" where
  "MSEC_TO_USEC ms = ms * USEC_PER_MSEC"

definition USEC_TO_MSEC :: "u64 \<Rightarrow> u64" where
  "USEC_TO_MSEC us = us div USEC_PER_MSEC"

text \<open>\<^verbatim>\<open>#define STREQ(a, b) (*(a) == *(b) && strcmp((a), (b)) == 0)\<close> and
  \<^verbatim>\<open>#define STRNEQ(a, b) (strncmp((a), (b), (strlen(a))) == 0)\<close>: the first
  \<^verbatim>\<open>strlen(a)\<close> characters of \<open>b\<close> are \<open>a\<close>.\<close>

definition STREQ :: "string \<Rightarrow> string \<Rightarrow> bool" where
  "STREQ a b = (a = b)"

definition STRNEQ :: "string \<Rightarrow> string \<Rightarrow> bool" where
  "STRNEQ a b = (take (length a) b = a)"

text \<open>The action kinds (the anonymous \<^verbatim>\<open>enum\<close>).\<close>

definition ACTION_DUMMY :: nat where "ACTION_DUMMY = 0"
definition ACTION_GPIO_HIGH :: nat where "ACTION_GPIO_HIGH = 1"
definition ACTION_GPIO_LOW :: nat where "ACTION_GPIO_LOW = 2"
definition ACTION_REGULATOR_ENABLE :: nat where "ACTION_REGULATOR_ENABLE = 3"
definition ACTION_REGULATOR_DISABLE :: nat where "ACTION_REGULATOR_DISABLE = 4"
definition ACTION_DELAY_MDELAY :: nat where "ACTION_DELAY_MDELAY = 5"
definition ACTION_DELAY_MSLEEP :: nat where "ACTION_DELAY_MSLEEP = 6"
definition ACTION_DELAY_USLEEP :: nat where "ACTION_DELAY_USLEEP = 7"
definition ACTION_PINCTRL :: nat where "ACTION_PINCTRL = 8"
definition ACTION_TIMER_START :: nat where "ACTION_TIMER_START = 9"
definition ACTION_TIMER_DELAY :: nat where "ACTION_TIMER_DELAY = 10"
definition ACTION_TIMER_CLEAR :: nat where "ACTION_TIMER_CLEAR = 11"
definition ACTION_MAX :: nat where "ACTION_MAX = 12"

text \<open>\<^verbatim>\<open>const char *action_list[ACTION_MAX]\<close>; the entry of \<^verbatim>\<open>ACTION_DUMMY\<close> is
  \<^verbatim>\<open>NULL\<close> and is never read.\<close>

definition action_list :: "string list" where
  "action_list =
    ['''', ''gpio,high'', ''gpio,low'', ''regulator,enable'', ''regulator,disable'',
     ''delay,mdelay'', ''delay,msleep'', ''delay,usleep'', ''pinctrl'',
     ''timer,start'', ''timer,delay'', ''timer,clear'']"

subsection \<open>Data\<close>

text \<open>\<^verbatim>\<open>struct timer_info\<close>. The name comes from \<^verbatim>\<open>kstrdup\<close> and is never
  \<^verbatim>\<open>NULL\<close>.\<close>

record timer_info =
  timer_name :: string
  timer_start :: u64
  timer_end :: u64
  timer_now :: u64
  timer_delay :: u32

text \<open>\<^verbatim>\<open>struct regulator_bulk_data\<close>: the supply name and the consumer handle that
  \<^verbatim>\<open>regulator_bulk_get\<close> fills in.\<close>

record regulator_bulk_data =
  supply_name :: string
  consumer :: nat

text \<open>A \<^verbatim>\<open>struct pinctrl *\<close> or \<^verbatim>\<open>struct pinctrl_state *\<close>: \<open>Inl e\<close> is
  \<^verbatim>\<open>ERR_PTR(e)\<close>, \<open>Inr h\<close> a valid handle.\<close>

type_synonym handle = "int + nat"

text \<open>\<^verbatim>\<open>struct action_info\<close>; \<^verbatim>\<open>delay[2]\<close> is the two fields \<open>delay0\<close> and
  \<open>delay1\<close>; \<open>supply_data\<close> is the field \<^verbatim>\<open>supply\<close>; \<open>timer\<close> points into the
  timer store.\<close>

record action_info =
  atype :: "string option"
  subinfo :: "string option"
  desc :: "string option"
  idx :: nat
  gpio :: int
  delay0 :: u32
  delay1 :: u32
  supply_data :: "regulator_bulk_data option"
  pins :: "handle option"
  pstate :: "handle option"
  timer :: "nat option"

text \<open>What \<^verbatim>\<open>kzalloc(sizeof(struct action_info), GFP_KERNEL)\<close> returns.\<close>

definition zero_action :: action_info where
  "zero_action =
    \<lparr>atype = None, subinfo = None, desc = None, idx = 0, gpio = 0, delay0 = 0, delay1 = 0,
     supply_data = None, pins = None, pstate = None, timer = None\<rparr>"

text \<open>\<^verbatim>\<open>struct dt_node_info\<close>: a sequence name and its list of actions.\<close>

record dt_node_info =
  dt_name :: string
  dt_list :: "action_info list"

text \<open>A device-tree node of a sequence: its \<^verbatim>\<open>type\<close> and \<^verbatim>\<open>desc\<close> string-list
  properties (\<open>None\<close>: the property is absent).\<close>

record device_node =
  type_prop :: "string list option"
  desc_prop :: "string list option"

text \<open>\<^verbatim>\<open>struct device\<close>, as far as \<^verbatim>\<open>make_list\<close> reads it.\<close>

record device =
  of_node :: "nat option"

text \<open>How an execution can end early: \<^verbatim>\<open>BUG()\<close> or \<^verbatim>\<open>BUG_ON\<close>, the dereference of a
  \<^verbatim>\<open>NULL\<close> pointer, the dereference of a timer pointer outside the store.\<close>

datatype fault = BUG | NULL_DEREF | WILD_DEREF

datatype event =
    Make_list string
  | Of_get_named_gpio string
  | Regulator_bulk_get string
  | Of_find_device_by_node
  | Devm_pinctrl_get
  | Pinctrl_lookup_state handle string
  | Kfree_action action_info
  | Gpio_request_one int bool
  | Gpio_free int
  | Regulator_enable nat
  | Regulator_disable nat
  | Mdelay u32
  | Msleep u32
  | Usleep_range u64 u64
  | Pinctrl_select_state "handle option" "handle option"

text \<open>The collaborators: the device tree, the hardware resolvers, the hardware
  actuators' results and the clock (\<open>local_clock e n\<close> is what the \<open>n\<close>-th call of
  \<^verbatim>\<open>local_clock()\<close> returns).\<close>

record env =
  lcdtype :: u32
  of_find_node_with_property :: "nat option"
  of_parse_phandle :: "nat \<Rightarrow> nat option"
  of_find_node_by_name :: "nat option \<Rightarrow> string \<Rightarrow> device_node option"
  ARCH_NR_GPIOS :: int
  of_get_named_gpio :: "string \<Rightarrow> int"
  regulator_bulk_get :: "string \<Rightarrow> int \<times> nat"
  of_find_device_by_node :: bool
  devm_pinctrl_get :: handle
  pinctrl_lookup_state :: "handle \<Rightarrow> string \<Rightarrow> handle"
  kstrtouint :: "string \<Rightarrow> int \<times> u32"
  gpio_request_one :: "int \<Rightarrow> bool \<Rightarrow> int"
  regulator_enable :: "nat \<Rightarrow> int"
  regulator_disable :: "nat \<Rightarrow> int"
  local_clock :: "nat \<Rightarrow> u64"

text \<open>The driver's state: \<^verbatim>\<open>dt_nodes[10]\<close> (its non-\<^verbatim>\<open>NULL\<close> entries, which are
  filled from index 0 on), the timer store, the number of clock readings taken and the
  trace of collaborator calls.\<close>

record state =
  dt_nodes :: "dt_node_info list"
  timers :: "timer_info list"
  clock_reads :: nat
  trace :: "event list"

definition ARRAY_SIZE_dt_nodes :: nat where "ARRAY_SIZE_dt_nodes = 10"

type_synonym 'a result = "(fault \<times> state) + 'a"

definition log_event :: "event \<Rightarrow> state \<Rightarrow> state" where
  "log_event ev s = s\<lparr>trace := trace s @ [ev]\<rparr>"

subsection \<open>Kernel string helpers\<close>

text \<open>
  Modelled from the spec: \<^verbatim>\<open>isspace\<close>, \<^verbatim>\<open>isdigit\<close>, \<^verbatim>\<open>skip_spaces\<close> and
  \<^verbatim>\<open>sscanf\<close> belong to the kernel's library (\<^verbatim>\<open>lib/ctype.c\<close>, \<^verbatim>\<open>lib/string.c\<close>,
  \<^verbatim>\<open>lib/vsprintf.c\<close>), outside the driver's own source file. The specification only
  says that a ranged sleep takes ``one or two non-negative integers, \<^verbatim>\<open>lo [hi]\<close>'' and a
  timer start ``\<^verbatim>\<open><name> <delay_ms>\<close>; parse both tokens''. The definitions below follow
  the kernel's \<^verbatim>\<open>vsscanf\<close> for the two format strings the driver uses: white space in
  the format skips white space in the input; \<^verbatim>\<open>%d\<close> skips white space, wants an
  optional \<^verbatim>\<open>-\<close> and a digit, reads all digits with \<^verbatim>\<open>simple_strtol\<close> (64 bits,
  wrapping), and a field width of 8 gives back the characters beyond the eighth, dividing
  the value by ten for each; \<^verbatim>\<open>%s\<close> skips white space and copies up to the next white
  space; the conversions stop at the first one that fails, and the result is the number
  of conversions stored, so it never exceeds the number of conversions in the format.
\<close>

definition isspace :: "char \<Rightarrow> bool" where
  "isspace c = ((of_char c :: nat) \<in> {9, 10, 11, 12, 13, 32, 160})"

definition isdigit :: "char \<Rightarrow> bool" where
  "isdigit c = (48 \<le> (of_char c :: nat) \<and> (of_char c :: nat) \<le> 57)"

definition skip_spaces :: "string \<Rightarrow> string" where
  "skip_spaces str = dropWhile isspace str"

text \<open>\<^verbatim>\<open>_parse_integer\<close> in base 10 on a string of digits:
  \<^verbatim>\<open>res = res * base + val\<close> in \<^verbatim>\<open>unsigned long long\<close>.\<close>

fun parse_integer :: "string \<Rightarrow> u64 \<Rightarrow> u64" where
  "parse_integer [] res = res"
| "parse_integer (c # cs) res = parse_integer cs (res * 10 + of_nat (of_char c - 48))"

text \<open>\<^verbatim>\<open>div_s64(val, 10)\<close>: signed division, rounding towards zero.\<close>

definition div_s64_10 :: "u64 \<Rightarrow> u64" where
  "div_s64_10 v = (if sint v < 0 then - (word_of_int ((- sint v) div 10)) else v div 10)"

text \<open>One \<^verbatim>\<open>%8d\<close> conversion at \<open>str\<close>: \<open>None\<close> when it fails, else the
  \<^verbatim>\<open>int\<close> stored (as its 32 bits) and the rest of the input.\<close>

definition scan_d8 :: "string \<Rightarrow> (u32 \<times> string) option" where
  "scan_d8 str =
    (let s = skip_spaces str;
         neg = (s \<noteq> [] \<and> hd s = CHR ''-'');
         body = (if neg then tl s else s)
     in if body = [] then None
        else if \<not> isdigit (hd body) then None
        else
          let ds = takeWhile isdigit body;
              n = length ds + (if neg then 1 else 0);
              v = parse_integer ds 0;
              val = (if neg then - v else v);
              val' = (div_s64_10 ^^ (n - 8)) val
          in Some (ucast val', drop (min n 8) s))"

text \<open>\<^verbatim>\<open>sscanf(subinfo, "%8d %8d", &delay[0], &delay[1])\<close>: the values stored, in
  order; the result of the call is their number.\<close>

definition sscanf_d8_d8 :: "string \<Rightarrow> u32 list" where
  "sscanf_d8_d8 buf =
    (if buf = [] then []
     else case scan_d8 buf of
       None \<Rightarrow> []
     | Some (a, rest) \<Rightarrow>
         (let rest' = skip_spaces rest
          in if rest' = [] then [a]
             else case scan_d8 rest' of
               None \<Rightarrow> [a]
             | Some (b, _) \<Rightarrow> [a, b]))"

text \<open>\<^verbatim>\<open>sscanf(subinfo, "%s %8d\n", timer_name, &delay)\<close>: \<open>None\<close> when the
  call returns 0, \<open>Some (name, None)\<close> when it returns 1 (only the name is stored),
  \<open>Some (name, Some d)\<close> when it returns 2.\<close>

definition sscanf_s_d8 :: "string \<Rightarrow> (string \<times> u32 option) option" where
  "sscanf_s_d8 buf =
    (if buf = [] then None
     else
       let s = skip_spaces buf;
           name = take SHRT_MAX (takeWhile (\<lambda>c. \<not> isspace c) s);
           rest = skip_spaces (drop (length name) s)
       in if rest = [] then Some (name, None)
          else case scan_d8 rest of
            None \<Rightarrow> Some (name, None)
          | Some (d, _) \<Rightarrow> Some (name, Some d))"

text \<open>
  Modelled from the spec: \<^verbatim>\<open>ktime_us_delta\<close> and \<^verbatim>\<open>ns_to_ktime\<close> are kernel helpers
  (\<^verbatim>\<open>include/linux/ktime.h\<close>), outside the driver's own source file; the specification
  calls the value ``the remaining duration''. As in the kernel, it is the signed 64-bit
  difference of the two nanosecond values divided by 1000 (rounding towards zero), read
  back as a \<^verbatim>\<open>u64\<close>.
\<close>

definition ktime_us_delta :: "u64 \<Rightarrow> u64 \<Rightarrow> u64" where
  "ktime_us_delta later earlier =
    (let d = later - earlier
     in if sint d < 0 then - (word_of_int ((- sint d) div uint NSEC_PER_USEC))
        else d div NSEC_PER_USEC)"

subsection \<open>The builder\<close>

text \<open>\<^verbatim>\<open>action->timer->...\<close>: the timer an action points to, with its place in
  the store.\<close>

definition deref_timer :: "state \<Rightarrow> nat option \<Rightarrow> fault + nat \<times> timer_info" where
  "deref_timer s ptr =
    (case ptr of
       None \<Rightarrow> Inl NULL_DEREF
     | Some p \<Rightarrow> if p < length (timers s) then Inr (p, timers s ! p) else Inl WILD_DEREF)"

text \<open>\<^verbatim>\<open>find_timer\<close>, the inner \<^verbatim>\<open>list_for_each_entry\<close>: \<open>Inr (Some p)\<close> is the
  timer returned, \<open>Inr None\<close> means that the list has no timer of that name.
  \<^verbatim>\<open>STRNEQ("timer", action->type)\<close> reads \<^verbatim>\<open>action->type\<close>, which is \<^verbatim>\<open>NULL\<close> in a
  placeholder action.\<close>

fun find_timer_list :: "timer_info list \<Rightarrow> string \<Rightarrow> action_info list \<Rightarrow> fault + nat option" where
  "find_timer_list ts name [] = Inr None"
| "find_timer_list ts name (action # rest) =
    (case atype action of
       None \<Rightarrow> Inl NULL_DEREF
     | Some ty \<Rightarrow>
         if STRNEQ ''timer'' ty then
           (case timer action of
              None \<Rightarrow> find_timer_list ts name rest
            | Some p \<Rightarrow>
                if p < length ts then
                  (if STREQ (timer_name (ts ! p)) name then Inr (Some p)
                   else find_timer_list ts name rest)
                else Inl WILD_DEREF)
         else find_timer_list ts name rest)"

text \<open>\<^verbatim>\<open>find_timer\<close>, the outer \<^verbatim>\<open>while\<close> over \<^verbatim>\<open>dt_nodes[idx]\<close>, with its
  \<^verbatim>\<open>BUG_ON(idx == ARRAY_SIZE(dt_nodes))\<close>.\<close>

fun find_timer_nodes :: "timer_info list \<Rightarrow> string \<Rightarrow> dt_node_info list \<Rightarrow> nat \<Rightarrow> fault + nat option" where
  "find_timer_nodes ts name [] i = Inr None"
| "find_timer_nodes ts name (dt_node # rest) i =
    (case find_timer_list ts name (dt_list dt_node) of
       Inl f \<Rightarrow> Inl f
     | Inr (Some p) \<Rightarrow> Inr (Some p)
     | Inr None \<Rightarrow>
         if i + 1 = ARRAY_SIZE_dt_nodes then Inl BUG
         else find_timer_nodes ts name rest (i + 1))"

definition new_timer :: "string \<Rightarrow> timer_info" where
  "new_timer name =
    \<lparr>timer_name = name, timer_start = 0, timer_end = 0, timer_now = 0, timer_delay = 0\<rparr>"

definition find_timer :: "string \<Rightarrow> state \<Rightarrow> (nat \<times> state) result" where
  "find_timer name s =
    (case find_timer_nodes (timers s) name (dt_nodes s) 0 of
       Inl f \<Rightarrow> Inl (f, s)
     | Inr (Some p) \<Rightarrow> Inr (p, s)
     | Inr None \<Rightarrow> Inr (length (timers s), s\<lparr>timers := timers s @ [new_timer name]\<rparr>))"

text \<open>\<^verbatim>\<open>decide_type\<close>: the result and the action with its \<^verbatim>\<open>idx\<close> set. The
  \<^verbatim>\<open>for\<close> loop takes the first \<open>i\<close> from \<^verbatim>\<open>ACTION_GPIO_HIGH\<close> below
  \<^verbatim>\<open>ACTION_MAX\<close> whose name is a prefix of the type.\<close>

definition decide_type :: "action_info \<Rightarrow> int \<times> action_info" where
  "decide_type action =
    (case atype action of
       None \<Rightarrow> (0, action)
     | Some ty \<Rightarrow>
         if ty = [] then (0, action)
         else
           let i = (if STRNEQ ''pinctrl'' ty then ACTION_PINCTRL
                    else case find (\<lambda>i. STRNEQ (action_list ! i) ty)
                                [ACTION_GPIO_HIGH ..< ACTION_MAX] of
                           None \<Rightarrow> ACTION_DUMMY
                         | Some i \<Rightarrow> i)
           in if i = ACTION_DUMMY \<or> i = ACTION_MAX then (- EINVAL, action\<lparr>idx := ACTION_DUMMY\<rparr>)
              else (0, action\<lparr>idx := i\<rparr>))"

definition gpio_is_valid :: "env \<Rightarrow> int \<Rightarrow> bool" where
  "gpio_is_valid e number = (0 \<le> number \<and> number < ARCH_NR_GPIOS e)"

definition IS_ERR :: "handle \<Rightarrow> bool" where
  "IS_ERR h = (case h of Inl _ \<Rightarrow> True | Inr _ \<Rightarrow> False)"

text \<open>\<^verbatim>\<open>decide_subinfo\<close>, \<^verbatim>\<open>case ACTION_DELAY_USLEEP\<close> (lines 406 to 436).\<close>

definition decide_subinfo_usleep :: "string \<Rightarrow> action_info \<Rightarrow> int \<times> action_info" where
  "decide_subinfo_usleep sub action =
    (if \<not> isdigit (hd sub) then (- EINVAL, action)
     else
       let vals = sscanf_d8_d8 sub;
           ret = int (length vals);
           action1 = (case vals of
                        [] \<Rightarrow> action
                      | [a] \<Rightarrow> action\<lparr>delay0 := a\<rparr>
                      | a # b # _ \<Rightarrow> action\<lparr>delay0 := a, delay1 := b\<rparr>);
           (ret2, action2) =
             (if ret < 0 then (- EINVAL, action1)
              else if ret < 2 then
                (let d1 = delay0 action1 + drop_bit 1 (delay0 action1);
                     d1' = (if delay0 action1 = d1 then d1 + 1 else d1)
                 in (ret, action1\<lparr>delay1 := d1'\<rparr>))
              else if ret > 2 then (- EINVAL, action1)
              else (ret, action1));
           ret3 =
             (if delay0 action2 = 0 \<or> delay1 action2 = 0 then - EINVAL
              else if delay0 action2 > delay1 action2 then - EINVAL
              else if ucast (delay0 action2) \<ge> MSEC_TO_USEC SMALL_MSECS then - EINVAL
              else ret2)
       in (ret3, action2))"

text \<open>\<^verbatim>\<open>decide_subinfo\<close>, \<^verbatim>\<open>case ACTION_PINCTRL\<close> (lines 437 to 456).\<close>

definition decide_subinfo_pinctrl :: "env \<Rightarrow> string \<Rightarrow> action_info \<Rightarrow> state \<Rightarrow> int \<times> action_info \<times> state" where
  "decide_subinfo_pinctrl e sub action s =
    (let s1 = log_event Of_find_device_by_node s
     in if \<not> of_find_device_by_node e then (- EINVAL, action, s1)
        else
          let p = devm_pinctrl_get e;
              ret1 = (if IS_ERR p then - EINVAL else 0);
              st = pinctrl_lookup_state e p sub;
              ret2 = (if IS_ERR st then - EINVAL else ret1)
          in (ret2, action\<lparr>pins := Some p, pstate := Some st\<rparr>,
              log_event (Pinctrl_lookup_state p sub) (log_event Devm_pinctrl_get s1)))"

text \<open>\<^verbatim>\<open>decide_subinfo\<close>, \<^verbatim>\<open>case ACTION_TIMER_START\<close> (lines 457 to 473). When
  \<^verbatim>\<open>sscanf\<close> does not return 2, \<^verbatim>\<open>action->timer\<close> is not assigned, and line 468 reads
  \<^verbatim>\<open>action->timer->delay\<close> all the same.\<close>

definition decide_subinfo_timer_start :: "string \<Rightarrow> action_info \<Rightarrow> state \<Rightarrow> (int \<times> action_info \<times> state) result" where
  "decide_subinfo_timer_start sub action s =
    (case sscanf_s_d8 sub of
       Some (name, Some delay) \<Rightarrow>
         (case find_timer name s of
            Inl f \<Rightarrow> Inl f
          | Inr (p, s1) \<Rightarrow>
              (let s2 = s1\<lparr>timers := (timers s1)[p := (timers s1 ! p)\<lparr>timer_delay := delay\<rparr>]\<rparr>;
                   action' = action\<lparr>timer := Some p\<rparr>
               in case deref_timer s2 (timer action') of
                    Inl f \<Rightarrow> Inl (f, s2)
                  | Inr (_, t) \<Rightarrow>
                      Inr (if ucast (timer_delay t) < SMALL_MSECS then - EINVAL else 2, action', s2)))
     | _ \<Rightarrow>
         (case deref_timer s (timer action) of
            Inl f \<Rightarrow> Inl (f, s)
          | Inr _ \<Rightarrow> Inr (- EINVAL, action, s)))"

text \<open>\<^verbatim>\<open>decide_subinfo\<close>. The action is never \<^verbatim>\<open>NULL\<close> here, so the first test of
  the source is left out.\<close>

definition decide_subinfo :: "env \<Rightarrow> action_info \<Rightarrow> state \<Rightarrow> (int \<times> action_info \<times> state) result" where
  "decide_subinfo e action s =
    (case subinfo action of
       None \<Rightarrow> Inr (- EINVAL, action, s)
     | Some sub \<Rightarrow>
         if length sub = 0 then Inr (- EINVAL, action, s)
         else if idx action = ACTION_GPIO_HIGH \<or> idx action = ACTION_GPIO_LOW then
           (let action' = action\<lparr>gpio := of_get_named_gpio e sub\<rparr>
            in Inr (if \<not> gpio_is_valid e (gpio action') then - EINVAL else 0, action',
                    log_event (Of_get_named_gpio sub) s))
         else if idx action = ACTION_REGULATOR_ENABLE \<or> idx action = ACTION_REGULATOR_DISABLE then
           (let (ret, c) = regulator_bulk_get e sub
            in Inr (ret, action\<lparr>supply_data := Some \<lparr>supply_name = sub, consumer = c\<rparr>\<rparr>,
                    log_event (Regulator_bulk_get sub) s))
         else if idx action = ACTION_DELAY_MDELAY \<or> idx action = ACTION_DELAY_MSLEEP then
           (if \<not> isdigit (hd sub) then Inr (- EINVAL, action, s)
            else
              let (ret, v) = kstrtouint e sub
              in Inr (ret, if ret = 0 then action\<lparr>delay0 := v\<rparr> else action, s))
         else if idx action = ACTION_DELAY_USLEEP then
           (let (ret, action') = decide_subinfo_usleep sub action in Inr (ret, action', s))
         else if idx action = ACTION_PINCTRL then
           Inr (decide_subinfo_pinctrl e sub action s)
         else if idx action = ACTION_TIMER_START then
           decide_subinfo_timer_start sub action s
         else if idx action = ACTION_TIMER_DELAY \<or> idx action = ACTION_TIMER_CLEAR then
           (case find_timer sub s of
              Inl f \<Rightarrow> Inl f
            | Inr (p, s') \<Rightarrow> Inr (0, action\<lparr>timer := Some p\<rparr>, s'))
         else Inr (- EINVAL, action, s))"

text \<open>\<^verbatim>\<open>of_property_count_strings\<close>: the number of strings, or \<^verbatim>\<open>-EINVAL\<close> when
  the property is absent. \<^verbatim>\<open>of_property_read_string_index\<close> writes its output only
  when the index is in range.\<close>

definition of_property_count_strings :: "string list option \<Rightarrow> int" where
  "of_property_count_strings prop =
    (case prop of None \<Rightarrow> - EINVAL | Some strs \<Rightarrow> int (length strs))"

definition of_property_read_string_index :: "string list option \<Rightarrow> nat \<Rightarrow> string option \<Rightarrow> string option" where
  "of_property_read_string_index prop i out =
    (case prop of
       None \<Rightarrow> out
     | Some strs \<Rightarrow> if i < length strs then Some (strs ! i) else out)"

text \<open>\<^verbatim>\<open>list_add_tail(&action->node, lh)\<close>, where \<open>lh\<close> is the list of
  \<^verbatim>\<open>dt_nodes[k]\<close>.\<close>

definition list_add_tail :: "action_info \<Rightarrow> nat \<Rightarrow> state \<Rightarrow> state" where
  "list_add_tail action k s =
    s\<lparr>dt_nodes :=
        (dt_nodes s)[k := (dt_nodes s ! k)\<lparr>dt_list := dt_list (dt_nodes s ! k) @ [action]\<rparr>]\<rparr>"

text \<open>The list of \<^verbatim>\<open>dt_nodes[k]\<close>.\<close>

definition lh_of :: "state \<Rightarrow> nat \<Rightarrow> action_info list" where
  "lh_of s k = (if k < length (dt_nodes s) then dt_list (dt_nodes s ! k) else [])"

text \<open>\<^verbatim>\<open>make_list\<close>, after the loop (lines 555 to 561): \<open>cur\<close> is the local
  \<^verbatim>\<open>action\<close>, the action allocated last (\<open>None\<close> before the first allocation).\<close>

definition make_list_exit :: "action_info option \<Rightarrow> int \<Rightarrow> state \<Rightarrow> (int \<times> state) result" where
  "make_list_exit cur ret s =
    (if ret < 0
     then Inl (BUG, case cur of None \<Rightarrow> s | Some action \<Rightarrow> log_event (Kfree_action action) s)
     else Inr (ret, s))"

text \<open>How one iteration of the \<^verbatim>\<open>for\<close> loop of \<^verbatim>\<open>make_list\<close> ends: with
  \<^verbatim>\<open>continue\<close> at line 535 (the pair is skipped); with a \<^verbatim>\<open>break\<close> at line 544 or
  547 (the action allocated and the negative \<^verbatim>\<open>ret\<close>); in a fault; or at line 552, with
  the action added to the list and the \<^verbatim>\<open>ret\<close> of \<^verbatim>\<open>decide_subinfo\<close>.\<close>

datatype iteration =
    Skipped
  | Broke action_info int state
  | Crashed fault state
  | Added action_info int state

text \<open>\<^verbatim>\<open>make_list\<close>, the body of the \<^verbatim>\<open>for\<close> loop (lines 530 to 552) for index
  \<open>i\<close>. Both reads of the \<^verbatim>\<open>type\<close> property succeed for \<open>i < count\<close>, since
  \<open>count\<close> is half the number of its strings; a read that failed would leave a
  \<^verbatim>\<open>NULL\<close> string to \<^verbatim>\<open>STRNEQ\<close>.\<close>

definition make_list_body :: "env \<Rightarrow> device_node \<Rightarrow> nat \<Rightarrow> nat \<Rightarrow> nat \<Rightarrow> state \<Rightarrow> iteration" where
  "make_list_body e np k count i s =
    (case (of_property_read_string_index (type_prop np) (i * 2) None,
           of_property_read_string_index (type_prop np) (i * 2 + 1) None) of
       (Some ty, Some sub) \<Rightarrow>
         if lcdtype e = 0 \<and> \<not> STRNEQ ''delay'' ty \<and> \<not> STRNEQ ''timer'' ty then Skipped
         else
           (let action = zero_action\<lparr>atype := Some ty, subinfo := Some sub\<rparr>;
                (ret1, action1) = decide_type action
            in if ret1 < 0 then Broke action1 ret1 s
               else
                 (case decide_subinfo e action1 s of
                    Inl (f, s') \<Rightarrow> Crashed f s'
                  | Inr (ret2, action2, s2) \<Rightarrow>
                      if ret2 < 0 then Broke action2 ret2 s2
                      else
                        (let action3 =
                               (if of_property_count_strings (desc_prop np) = int count
                                then action2\<lparr>desc :=
                                       of_property_read_string_index (desc_prop np) i
                                         (desc action2)\<rparr>
                                else action2)
                         in Added action3 ret2 (list_add_tail action3 k s2))))
     | _ \<Rightarrow> Crashed NULL_DEREF s)"

text \<open>\<^verbatim>\<open>make_list\<close>, the \<^verbatim>\<open>for\<close> loop (lines 529 to 553) from \<open>i\<close> on, and what
  follows it; \<open>cur\<close> and \<open>ret\<close> are the locals \<^verbatim>\<open>action\<close> and \<^verbatim>\<open>ret\<close>.\<close>

function make_list_for ::
  "env \<Rightarrow> device_node \<Rightarrow> nat \<Rightarrow> nat \<Rightarrow> nat \<Rightarrow> action_info option \<Rightarrow> int \<Rightarrow> state
    \<Rightarrow> (int \<times> state) result" where
  "make_list_for e np k count i cur ret s =
    (if i < count then
       (case make_list_body e np k count i s of
          Skipped \<Rightarrow> make_list_for e np k count (i + 1) cur ret s
        | Broke action ret' s' \<Rightarrow> make_list_exit (Some action) ret' s'
        | Crashed f s' \<Rightarrow> Inl (f, s')
        | Added action ret' s' \<Rightarrow> make_list_for e np k count (i + 1) (Some action) ret' s')
     else make_list_exit cur ret s)"
  by pat_completeness auto
termination
  by (relation "measure (\<lambda>(e, np, k, count, i, cur, ret, s). count - i)") auto

text \<open>\<^verbatim>\<open>(dev && dev->of_node) ? dev->of_node :
  of_find_node_with_property(NULL, DECON_BOARD_DTS_NAME)\<close> (line 498).\<close>

definition board_node :: "env \<Rightarrow> device option \<Rightarrow> nat option" where
  "board_node e dev =
    (case dev of
       None \<Rightarrow> of_find_node_with_property e
     | Some d \<Rightarrow>
         (case of_node d of
            None \<Rightarrow> of_find_node_with_property e
          | Some n \<Rightarrow> Some n))"

text \<open>\<^verbatim>\<open>make_list(dev, lh, name)\<close>, where \<open>lh\<close> is the list of \<^verbatim>\<open>dt_nodes[k]\<close>.
  The call itself is recorded in the trace.\<close>

definition make_list :: "env \<Rightarrow> device option \<Rightarrow> nat \<Rightarrow> string \<Rightarrow> state \<Rightarrow> (int \<times> state) result" where
  "make_list e dev k name s0 =
    (let s = log_event (Make_list name) s0
     in case board_node e dev of
          None \<Rightarrow> Inr (- EINVAL, list_add_tail zero_action k s)
        | Some n \<Rightarrow>
            (case of_find_node_by_name e (of_parse_phandle e n) name of
               None \<Rightarrow> Inr (- EINVAL, list_add_tail zero_action k s)
             | Some np \<Rightarrow>
                 (let count = of_property_count_strings (type_prop np)
                  in if count < 0 \<or> count = 0 \<or> count mod 2 \<noteq> 0
                     then Inr (- EINVAL, list_add_tail zero_action k s)
                     else make_list_for e np k (nat (count div 2)) 0 None 0 s)))"

subsection \<open>The executor\<close>

text \<open>\<^verbatim>\<open>action->timer->end = 0\<close>, the body of \<^verbatim>\<open>case ACTION_TIMER_CLEAR\<close>.\<close>

definition timer_clear :: "nat \<Rightarrow> state \<Rightarrow> state" where
  "timer_clear p s = s\<lparr>timers := (timers s)[p := (timers s ! p)\<lparr>timer_end := 0\<rparr>]\<rparr>"

text \<open>\<^verbatim>\<open>do_list\<close>, \<^verbatim>\<open>case ACTION_TIMER_DELAY\<close> (lines 610 to 629) for the timer at
  \<open>p\<close>. The \<^verbatim>\<open>break\<close> of line 620 leaves the \<^verbatim>\<open>switch\<close>; the other paths fall
  through into \<^verbatim>\<open>case ACTION_TIMER_CLEAR\<close>.\<close>

definition do_timer_delay :: "env \<Rightarrow> nat \<Rightarrow> state \<Rightarrow> state" where
  "do_timer_delay e p s =
    (let s1 = s\<lparr>timers := (timers s)[p := (timers s ! p)\<lparr>timer_now := local_clock e (clock_reads s)\<rparr>],
                clock_reads := clock_reads s + 1\<rparr>;
         t = timers s1 ! p
     in if timer_end t = 0 then timer_clear p (log_event (Msleep (timer_delay t)) s1)
        else if timer_end t > timer_now t then
          (let us_delta = ktime_us_delta (timer_end t) (timer_now t)
           in if us_delta = 0 \<or> us_delta > UINT_MAX then s1
              else if us_delta < MSEC_TO_USEC SMALL_MSECS
              then timer_clear p
                     (log_event (Usleep_range us_delta (us_delta + drop_bit 1 us_delta)) s1)
              else timer_clear p (log_event (Msleep (ucast (USEC_TO_MSEC us_delta))) s1))
        else timer_clear p s1)"

text \<open>\<^verbatim>\<open>do_list\<close>, the \<^verbatim>\<open>switch\<close> for one action; \<open>ret\<close> is the local
  \<^verbatim>\<open>ret\<close>, which only some of the cases assign.\<close>

definition do_action :: "env \<Rightarrow> action_info \<Rightarrow> int \<Rightarrow> state \<Rightarrow> (int \<times> state) result" where
  "do_action e action ret s =
    (if idx action = ACTION_GPIO_HIGH then
       Inr (gpio_request_one e (gpio action) True,
            log_event (Gpio_free (gpio action))
              (log_event (Gpio_request_one (gpio action) True) s))
     else if idx action = ACTION_GPIO_LOW then
       Inr (gpio_request_one e (gpio action) False,
            log_event (Gpio_free (gpio action))
              (log_event (Gpio_request_one (gpio action) False) s))
     else if idx action = ACTION_REGULATOR_ENABLE then
       (case supply_data action of
          None \<Rightarrow> Inl (NULL_DEREF, s)
        | Some bulk \<Rightarrow>
            Inr (regulator_enable e (consumer bulk), log_event (Regulator_enable (consumer bulk)) s))
     else if idx action = ACTION_REGULATOR_DISABLE then
       (case supply_data action of
          None \<Rightarrow> Inl (NULL_DEREF, s)
        | Some bulk \<Rightarrow>
            Inr (regulator_disable e (consumer bulk),
                 log_event (Regulator_disable (consumer bulk)) s))
     else if idx action = ACTION_DELAY_MDELAY then
       Inr (ret, log_event (Mdelay (delay0 action)) s)
     else if idx action = ACTION_DELAY_MSLEEP then
       Inr (ret, log_event (Msleep (delay0 action)) s)
     else if idx action = ACTION_DELAY_USLEEP then
       Inr (ret, log_event (Usleep_range (ucast (delay0 action)) (ucast (delay1 action))) s)
     else if idx action = ACTION_PINCTRL then
       Inr (ret, log_event (Pinctrl_select_state (pins action) (pstate action)) s)
     else if idx action = ACTION_TIMER_START then
       (case deref_timer s (timer action) of
          Inl f \<Rightarrow> Inl (f, s)
        | Inr (p, t) \<Rightarrow>
            (let start = local_clock e (clock_reads s);
                 t' = t\<lparr>timer_start := start,
                        timer_end := start + ucast (timer_delay t) * NSEC_PER_MSEC\<rparr>
             in Inr (ret, s\<lparr>timers := (timers s)[p := t'],
                            clock_reads := clock_reads s + 1\<rparr>)))
     else if idx action = ACTION_TIMER_DELAY then
       (case deref_timer s (timer action) of
          Inl f \<Rightarrow> Inl (f, s)
        | Inr (p, _) \<Rightarrow> Inr (ret, do_timer_delay e p s))
     else if idx action = ACTION_TIMER_CLEAR then
       (case deref_timer s (timer action) of
          Inl f \<Rightarrow> Inl (f, s)
        | Inr (p, _) \<Rightarrow> Inr (ret, timer_clear p s))
     else if idx action = ACTION_DUMMY then Inr (ret, s)
     else Inr (- EINVAL, s))"

text \<open>\<^verbatim>\<open>do_list\<close>: the \<^verbatim>\<open>list_for_each_entry\<close>, then \<^verbatim>\<open>if (ret < 0) BUG()\<close>.\<close>

fun do_list_loop :: "env \<Rightarrow> action_info list \<Rightarrow> int \<Rightarrow> state \<Rightarrow> (int \<times> state) result" where
  "do_list_loop e [] ret s = Inr (ret, s)"
| "do_list_loop e (action # rest) ret s =
    (case do_action e action ret s of
       Inl f \<Rightarrow> Inl f
     | Inr (ret', s') \<Rightarrow> do_list_loop e rest ret' s')"

definition do_list :: "env \<Rightarrow> action_info list \<Rightarrow> state \<Rightarrow> (int \<times> state) result" where
  "do_list e lh s =
    (case do_list_loop e lh 0 s of
       Inl f \<Rightarrow> Inl f
     | Inr (ret, s') \<Rightarrow> if ret < 0 then Inl (BUG, s') else Inr (ret, s'))"

subsection \<open>The entry point\<close>

text \<open>\<^verbatim>\<open>find_list\<close>, the \<^verbatim>\<open>while\<close> loop from \<^verbatim>\<open>dt_nodes[i]\<close> on: the index found
  and whether a node of that name is there.\<close>

fun find_list_from :: "string \<Rightarrow> dt_node_info list \<Rightarrow> nat \<Rightarrow> fault + nat \<times> bool" where
  "find_list_from name [] i = Inr (i, False)"
| "find_list_from name (dt_node # rest) i =
    (if STREQ (dt_name dt_node) name then Inr (i, True)
     else if i + 1 = ARRAY_SIZE_dt_nodes then Inl BUG
     else find_list_from name rest (i + 1))"

text \<open>\<^verbatim>\<open>find_list\<close>: the index \<open>k\<close> of the list returned (\<^verbatim>\<open>&dt_nodes[k]->node\<close>);
  a new node with an empty list is stored at the first free index.\<close>

definition find_list :: "string \<Rightarrow> state \<Rightarrow> (nat \<times> state) result" where
  "find_list name s =
    (case find_list_from name (dt_nodes s) 0 of
       Inl f \<Rightarrow> Inl (f, s)
     | Inr (k, found) \<Rightarrow>
         if found then Inr (k, s)
         else Inr (k, s\<lparr>dt_nodes := dt_nodes s @ [\<lparr>dt_name = name, dt_list = []\<rparr>]\<rparr>))"

text \<open>\<^verbatim>\<open>run_list\<close>: the result of \<^verbatim>\<open>make_list\<close> and of \<^verbatim>\<open>do_list\<close> is not used.\<close>

definition run_list :: "env \<Rightarrow> device option \<Rightarrow> string \<Rightarrow> state \<Rightarrow> state result" where
  "run_list e dev name s =
    (case find_list name s of
       Inl f \<Rightarrow> Inl f
     | Inr (k, s1) \<Rightarrow>
         (case (if lh_of s1 k = [] then make_list e dev k name s1 else Inr (0, s1)) of
            Inl f \<Rightarrow> Inl f
          | Inr (_, s2) \<Rightarrow>
              (case do_list e (lh_of s2 k) s2 of
                 Inl f \<Rightarrow> Inl f
               | Inr (_, s3) \<Rightarrow> Inr s3)))"

subsection \<open>Notions used in the statements\<close>

text \<open>The calls of the trace that resolve a hardware handle (made by the builder) and
  those that drive the hardware or sleep (made by the executor).\<close>

fun is_resolver :: "event \<Rightarrow> bool" where
  "is_resolver (Of_get_named_gpio _) = True"
| "is_resolver (Regulator_bulk_get _) = True"
| "is_resolver Of_find_device_by_node = True"
| "is_resolver Devm_pinctrl_get = True"
| "is_resolver (Pinctrl_lookup_state _ _) = True"
| "is_resolver _ = False"

fun is_actuator :: "event \<Rightarrow> bool" where
  "is_actuator (Gpio_request_one _ _) = True"
| "is_actuator (Gpio_free _) = True"
| "is_actuator (Regulator_enable _) = True"
| "is_actuator (Regulator_disable _) = True"
| "is_actuator (Mdelay _) = True"
| "is_actuator (Msleep _) = True"
| "is_actuator (Usleep_range _ _) = True"
| "is_actuator (Pinctrl_select_state _ _) = True"
| "is_actuator _ = False"

text \<open>The list cached under a name: \<open>None\<close> when \<^verbatim>\<open>dt_nodes\<close> has no node of that
  name (among those that \<^verbatim>\<open>find_list\<close> reaches).\<close>

definition cached :: "state \<Rightarrow> string \<Rightarrow> action_info list option" where
  "cached s name =
    (case find_list_from name (dt_nodes s) 0 of
       Inl _ \<Rightarrow> None
     | Inr (k, found) \<Rightarrow> if found then Some (lh_of s k) else None)"

text \<open>How often \<^verbatim>\<open>make_list\<close> was called for a name.\<close>

definition builds :: "state \<Rightarrow> string \<Rightarrow> nat" where
  "builds s name = count_list (trace s) (Make_list name)"

text \<open>An action of a delay or timer kind.\<close>

definition is_delay_or_timer :: "action_info \<Rightarrow> bool" where
  "is_delay_or_timer a =
    (idx a \<in> {ACTION_DELAY_MDELAY, ACTION_DELAY_MSLEEP, ACTION_DELAY_USLEEP,
               ACTION_TIMER_START, ACTION_TIMER_DELAY, ACTION_TIMER_CLEAR})"

text \<open>
  The integers of a ranged-sleep parameter as the specification reads them (``one or two
  non-negative integers (microseconds), \<^verbatim>\<open>lo [hi]\<close>''), independently of the driver's
  parsing: a non-negative integer is written as a decimal numeral, a non-empty string of
  digits, and \<open>decimal ds 0\<close> is the number it denotes (\<open>decimal ds n\<close> continues
  from the value \<open>n\<close> of the digits already read). \<open>is_numeral8\<close> holds of the
  numerals of at most eight digits, the field width that the driver gives to \<^verbatim>\<open>sscanf\<close>.
\<close>

fun decimal :: "string \<Rightarrow> nat \<Rightarrow> nat" where
  "decimal [] n = n"
| "decimal (c # cs) n = decimal cs (n * 10 + (of_char c - 48))"

definition is_numeral8 :: "string \<Rightarrow> bool" where
  "is_numeral8 ds = (ds \<noteq> [] \<and> length ds \<le> 8 \<and> list_all isdigit ds)"

subsection \<open>A board for the examples\<close>

text \<open>The device tree of the example in the source's header comment (with
  \<^verbatim>\<open>timer,delay\<close> for the await), and some malformed sequences.\<close>

definition subnode_1 :: device_node where
  "subnode_1 =
    \<lparr>type_prop = Some [''regulator,enable'', ''ldo1'', ''gpio,high'', ''gpio_lcd_en'',
                       ''delay,usleep'', ''10000 11000'', ''delay,usleep'', ''10000'',
                       ''pinctrl'', ''pin_on'', ''delay,msleep'', ''30''],
     desc_prop = None\<rparr>"

definition bad_second :: device_node where
  "bad_second =
    \<lparr>type_prop = Some [''delay,usleep'', ''10000'', ''delay,usleep'', ''0'',
                       ''delay,usleep'', ''500''],
     desc_prop = None\<rparr>"

definition odd_node :: device_node where
  "odd_node =
    \<lparr>type_prop = Some [''delay,usleep'', ''10000'', ''gpio,high''], desc_prop = None\<rparr>"

definition absent_node :: device_node where
  "absent_node = \<lparr>type_prop = None, desc_prop = None\<rparr>"

definition none_node :: device_node where
  "none_node = \<lparr>type_prop = Some [], desc_prop = None\<rparr>"

definition example_node :: "string \<Rightarrow> device_node option" where
  "example_node name =
    (if name = ''subnode_1'' then Some subnode_1
     else if name = ''subnode_2'' then
       Some \<lparr>type_prop = Some [''timer,start'', ''loading 300''], desc_prop = None\<rparr>
     else if name = ''subnode_3'' then
       Some \<lparr>type_prop = Some [''timer,delay'', ''loading''], desc_prop = None\<rparr>
     else if name = ''long_start'' then
       Some \<lparr>type_prop = Some [''timer,start'', ''loading 5000000''], desc_prop = None\<rparr>
     else if name = ''gpio_only'' then
       Some \<lparr>type_prop = Some [''gpio,high'', ''gpio_lcd_en''], desc_prop = None\<rparr>
     else if name = ''gpio_sleep'' then
       Some \<lparr>type_prop = Some [''gpio,high'', ''gpio_lcd_en'', ''delay,usleep'', ''10000''],
             desc_prop = None\<rparr>
     else if name = ''odd'' then Some odd_node
     else if name = ''absent'' then Some absent_node
     else if name = ''none'' then Some none_node
     else if name = ''bad_second'' then Some bad_second
     else None)"

definition example_env :: env where
  "example_env =
    \<lparr>lcdtype = 1, of_find_node_with_property = Some 0, of_parse_phandle = (\<lambda>n. Some 1),
     of_find_node_by_name = (\<lambda>from name. example_node name),
     ARCH_NR_GPIOS = 512, of_get_named_gpio = (\<lambda>name. 5),
     regulator_bulk_get = (\<lambda>name. (0, 7)),
     of_find_device_by_node = True, devm_pinctrl_get = Inr 3,
     pinctrl_lookup_state = (\<lambda>p name. Inr 4),
     kstrtouint = (\<lambda>str. (0, 30)),
     gpio_request_one = (\<lambda>g high. 0), regulator_enable = (\<lambda>c. 0),
     regulator_disable = (\<lambda>c. 0),
     local_clock = (\<lambda>n. 0)\<rparr>"

definition empty_state :: state where
  "empty_state = \<lparr>dt_nodes = [], timers = [], clock_reads = 0, trace = []\<rparr>"

text \<open>The board with a clock that reads 0 at the first call and \<open>now\<close> afterwards.\<close>

definition clock_env :: "u64 \<Rightarrow> env" where
  "clock_env now = example_env\<lparr>local_clock := (\<lambda>n. if n = 0 then 0 else now)\<rparr>"

text \<open>The board without a panel (\<^verbatim>\<open>lcdtype\<close> is zero).\<close>

definition no_panel_env :: env where
  "no_panel_env = example_env\<lparr>lcdtype := 0\<rparr>"

text \<open>The timer \<^verbatim>\<open>loading\<close> and the actions that start and await it, as the builder
  makes them from \<^verbatim>\<open>"timer,start", "loading <delay>"\<close> and
  \<^verbatim>\<open>"timer,delay", "loading"\<close>.\<close>

definition loading_timer :: "u64 \<Rightarrow> u64 \<Rightarrow> u64 \<Rightarrow> u32 \<Rightarrow> timer_info" where
  "loading_timer start end_time now delay =
    \<lparr>timer_name = ''loading'', timer_start = start, timer_end = end_time, timer_now = now,
     timer_delay = delay\<rparr>"

definition start_action :: "string \<Rightarrow> action_info" where
  "start_action sub =
    zero_action\<lparr>atype := Some ''timer,start'', subinfo := Some sub,
                idx := ACTION_TIMER_START, timer := Some 0\<rparr>"

definition await_action :: action_info where
  "await_action =
    zero_action\<lparr>atype := Some ''timer,delay'', subinfo := Some ''loading'',
                idx := ACTION_TIMER_DELAY, timer := Some 0\<rparr>"

text \<open>The state in which \<^verbatim>\<open>find_list\<close> has just made the node of a name.\<close>

definition fresh_state :: "string \<Rightarrow> state" where
  "fresh_state name =
    \<lparr>dt_nodes = [\<lparr>dt_name = name, dt_list = []\<rparr>], timers = [], clock_reads = 0, trace = []\<rparr>"

text \<open>The actions that the builder makes from \<^verbatim>\<open>"delay,usleep", sub\<close> and from
  \<^verbatim>\<open>"gpio,high", "gpio_lcd_en"\<close> on the example board.\<close>

definition usleep_action :: "string \<Rightarrow> u32 \<Rightarrow> u32 \<Rightarrow> action_info" where
  "usleep_action sub lo hi =
    zero_action\<lparr>atype := Some ''delay,usleep'', subinfo := Some sub,
                idx := ACTION_DELAY_USLEEP, delay0 := lo, delay1 := hi\<rparr>"

definition gpio_high_action :: action_info where
  "gpio_high_action =
    zero_action\<lparr>atype := Some ''gpio,high'', subinfo := Some ''gpio_lcd_en'',
                idx := ACTION_GPIO_HIGH, gpio := 5\<rparr>"

text \<open>The first \<^verbatim>\<open>run_list\<close> of the sequence \<^verbatim>\<open>gpio_sleep\<close> on the example board:
  the state when \<^verbatim>\<open>make_list\<close> has returned, and the state when \<^verbatim>\<open>do_list\<close> has
  returned after it. Then the state with the placeholder left for a name.\<close>

definition resolved_state :: state where
  "resolved_state =
    \<lparr>dt_nodes = [\<lparr>dt_name = ''gpio_sleep'',
                   dt_list = [gpio_high_action, usleep_action ''10000'' 10000 15000]\<rparr>],
     timers = [], clock_reads = 0,
     trace = [Make_list ''gpio_sleep'', Of_get_named_gpio ''gpio_lcd_en'']\<rparr>"

definition built_state :: state where
  "built_state =
    \<lparr>dt_nodes = [\<lparr>dt_name = ''gpio_sleep'',
                   dt_list = [gpio_high_action, usleep_action ''10000'' 10000 15000]\<rparr>],
     timers = [], clock_reads = 0,
     trace = [Make_list ''gpio_sleep'', Of_get_named_gpio ''gpio_lcd_en'',
              Gpio_request_one 5 True, Gpio_free 5, Usleep_range 10000 15000]\<rparr>"

definition inert_state :: "string \<Rightarrow> state" where
  "inert_state name =
    \<lparr>dt_nodes = [\<lparr>dt_name = name, dt_list = [zero_action]\<rparr>], timers = [], clock_reads = 0,
     trace = [Make_list name]\<rparr>"

text \<open>A state after one clock reading in which the timer \<^verbatim>\<open>loading\<close> (300 ms) has the
  given end time.\<close>

definition timer_state :: "u64 \<Rightarrow> state" where
  "timer_state end_time =
    \<lparr>dt_nodes = [], timers = [loading_timer 0 end_time 0 300], clock_reads = 1, trace = []\<rparr>"

section \<open>Properties\<close>

lemmas ACTION_defs =
  ACTION_DUMMY_def ACTION_GPIO_HIGH_def ACTION_GPIO_LOW_def ACTION_REGULATOR_ENABLE_def
  ACTION_REGULATOR_DISABLE_def ACTION_DELAY_MDELAY_def ACTION_DELAY_MSLEEP_def
  ACTION_DELAY_USLEEP_def ACTION_PINCTRL_def ACTION_TIMER_START_def ACTION_TIMER_DELAY_def
  ACTION_TIMER_CLEAR_def ACTION_MAX_def

lemmas time_defs =
  MSEC_TO_USEC_def USEC_TO_MSEC_def SMALL_MSECS_def USEC_PER_MSEC_def NSEC_PER_MSEC_def
  NSEC_PER_USEC_def UINT_MAX_def

lemmas scan_defs =
  sscanf_d8_d8_def sscanf_s_d8_def scan_d8_def skip_spaces_def isspace_def isdigit_def
  div_s64_10_def SHRT_MAX_def

lemmas example_defs =
  example_env_def example_node_def empty_state_def clock_env_def no_panel_env_def
  loading_timer_def start_action_def await_action_def timer_state_def
  subnode_1_def bad_second_def odd_node_def absent_node_def none_node_def fresh_state_def
  usleep_action_def gpio_high_action_def resolved_state_def built_state_def inert_state_def

declare make_list_for.simps [simp del]

subsection \<open>Auxiliary facts\<close>

subsubsection \<open>Words\<close>

lemma unat_ucast_u32_u64: "unat (ucast (x :: u32) :: u64) = unat x"
proof -
  have "unat x < 2 ^ 32" using unsigned_less [of x] by simp
  then have "unat x < 2 ^ 64" by simp
  then show ?thesis by (simp add: unsigned_ucast_eq take_bit_nat_eq_self)
qed

lemma ucast_ge_20000: "((ucast (x :: u32) :: u64) \<ge> 20000) = (x \<ge> 20000)"
  by (simp add: word_le_nat_alt unat_ucast_u32_u64)

lemma sint_nonneg_u64:
  assumes "(d :: u64) < 2 ^ 63"
  shows "sint d = uint d"
proof -
  have "uint d < 2 ^ 63" using assms by (simp add: word_less_def)
  moreover have "- (2 ^ 63) \<le> uint d"
  proof -
    have "(- (2 ^ 63) :: int) \<le> 0" by simp
    also have "0 \<le> uint d" by simp
    finally show ?thesis .
  qed
  ultimately have "signed_take_bit 63 (uint d) = uint d"
    by (simp add: signed_take_bit_int_eq_self)
  then show ?thesis by (simp add: sint_uint)
qed

lemma ktime_us_delta_unat:
  assumes "earlier < later" and "later - earlier < 2 ^ 63"
  shows "unat (ktime_us_delta later earlier) = (unat later - unat earlier) div 1000"
proof -
  have "sint (later - earlier) = uint (later - earlier)"
    using assms(2) by (rule sint_nonneg_u64)
  then have "\<not> sint (later - earlier) < 0" by simp
  then have "ktime_us_delta later earlier = (later - earlier) div 1000"
    by (simp add: ktime_us_delta_def Let_def NSEC_PER_USEC_def)
  moreover have "unat (later - earlier) = unat later - unat earlier"
    using assms(1) by (simp add: unat_sub)
  ultimately show ?thesis by (simp add: unat_div)
qed

subsubsection \<open>State updates\<close>

lemma log_event_simps [simp]:
  "trace (log_event ev s) = trace s @ [ev]"
  "timers (log_event ev s) = timers s"
  "dt_nodes (log_event ev s) = dt_nodes s"
  "clock_reads (log_event ev s) = clock_reads s"
  by (simp_all add: log_event_def)

lemma timer_clear_simps [simp]:
  "trace (timer_clear p s) = trace s"
  "dt_nodes (timer_clear p s) = dt_nodes s"
  "clock_reads (timer_clear p s) = clock_reads s"
  by (simp_all add: timer_clear_def)

lemma list_add_tail_simps [simp]:
  "trace (list_add_tail a k s) = trace s"
  "timers (list_add_tail a k s) = timers s"
  "clock_reads (list_add_tail a k s) = clock_reads s"
  "length (dt_nodes (list_add_tail a k s)) = length (dt_nodes s)"
  by (simp_all add: list_add_tail_def)

lemma list_add_tail_names [simp]:
  "map dt_name (dt_nodes (list_add_tail a k s)) = map dt_name (dt_nodes s)"
proof (cases "k < length (dt_nodes s)")
  case True
  then have "(map dt_name (dt_nodes s))[k := dt_name (dt_nodes s ! k)] = map dt_name (dt_nodes s)"
    by (simp add: list_update_same_conv)
  then show ?thesis by (simp add: list_add_tail_def map_update)
next
  case False
  then show ?thesis by (simp add: list_add_tail_def list_update_beyond)
qed

lemma lh_of_list_add_tail:
  "k < length (dt_nodes s) \<Longrightarrow> lh_of (list_add_tail a k s) k = lh_of s k @ [a]"
  by (simp add: lh_of_def list_add_tail_def)

lemma lh_of_log_event [simp]: "lh_of (log_event ev s) k = lh_of s k"
  by (simp add: lh_of_def)

lemma lh_of_cong: "dt_nodes s' = dt_nodes s \<Longrightarrow> lh_of s' k = lh_of s k"
  by (simp add: lh_of_def)

subsubsection \<open>find_timer\<close>

lemma find_timer_Inr:
  "find_timer name s = Inr (p, s') \<Longrightarrow>
     dt_nodes s' = dt_nodes s \<and> trace s' = trace s \<and> clock_reads s' = clock_reads s"
  by (auto simp: find_timer_def split: sum.splits option.splits)

lemma find_timer_Inl: "find_timer name s = Inl (f, s') \<Longrightarrow> s' = s"
  by (auto simp: find_timer_def split: sum.splits option.splits)

subsubsection \<open>decide_type\<close>

lemma decide_type_keeps:
  "decide_type a = (r, a') \<Longrightarrow> atype a' = atype a \<and> subinfo a' = subinfo a"
  by (auto simp: decide_type_def Let_def split: option.splits if_splits)

lemma STRNEQ_hd: "STRNEQ a b \<Longrightarrow> a \<noteq> [] \<Longrightarrow> b \<noteq> [] \<and> hd b = hd a"
  by (cases a; cases b) (auto simp: STRNEQ_def)

lemma upt_actions: "[ACTION_GPIO_HIGH ..< ACTION_MAX] = [1, 2, 3, 4, 5, 6, 7, 8, 9, 10, 11]"
  by (simp add: ACTION_defs upt_rec)

lemma action_list_nth:
  "action_list ! 1 = ''gpio,high''" "action_list ! 2 = ''gpio,low''"
  "action_list ! 3 = ''regulator,enable''" "action_list ! 4 = ''regulator,disable''"
  "action_list ! 5 = ''delay,mdelay''" "action_list ! 6 = ''delay,msleep''"
  "action_list ! 7 = ''delay,usleep''" "action_list ! 8 = ''pinctrl''"
  "action_list ! 9 = ''timer,start''" "action_list ! 10 = ''timer,delay''"
  "action_list ! 11 = ''timer,clear''"
  by (simp_all add: action_list_def)

lemma decide_type_find:
  "find (\<lambda>i. STRNEQ (action_list ! i) ty) [ACTION_GPIO_HIGH ..< ACTION_MAX] =
    (if STRNEQ ''gpio,high'' ty then Some 1
     else if STRNEQ ''gpio,low'' ty then Some 2
     else if STRNEQ ''regulator,enable'' ty then Some 3
     else if STRNEQ ''regulator,disable'' ty then Some 4
     else if STRNEQ ''delay,mdelay'' ty then Some 5
     else if STRNEQ ''delay,msleep'' ty then Some 6
     else if STRNEQ ''delay,usleep'' ty then Some 7
     else if STRNEQ ''pinctrl'' ty then Some 8
     else if STRNEQ ''timer,start'' ty then Some 9
     else if STRNEQ ''timer,delay'' ty then Some 10
     else if STRNEQ ''timer,clear'' ty then Some 11
     else None)"
  unfolding upt_actions find.simps action_list_nth by (rule refl)

lemma decide_type_delay_timer:
  assumes "atype a = Some ty" and "STRNEQ ''delay'' ty \<or> STRNEQ ''timer'' ty"
    and "decide_type a = (r, a')" and "0 \<le> r"
  shows "is_delay_or_timer a'"
proof -
  from assms(2) have hd: "ty \<noteq> []" "hd ty = CHR ''d'' \<or> hd ty = CHR ''t''"
    using STRNEQ_hd [of "''delay''" ty] STRNEQ_hd [of "''timer''" ty] by auto
  have no: "\<not> STRNEQ ''pinctrl'' ty" "\<not> STRNEQ ''gpio,high'' ty" "\<not> STRNEQ ''gpio,low'' ty"
    "\<not> STRNEQ ''regulator,enable'' ty" "\<not> STRNEQ ''regulator,disable'' ty"
    using hd(2) by (auto dest: STRNEQ_hd)
  have "decide_type a =
    (let i = (case (if STRNEQ ''delay,mdelay'' ty then Some 5
                    else if STRNEQ ''delay,msleep'' ty then Some 6
                    else if STRNEQ ''delay,usleep'' ty then Some 7
                    else if STRNEQ ''timer,start'' ty then Some 9
                    else if STRNEQ ''timer,delay'' ty then Some 10
                    else if STRNEQ ''timer,clear'' ty then Some 11
                    else None) of None \<Rightarrow> ACTION_DUMMY | Some i \<Rightarrow> i)
     in if i = ACTION_DUMMY \<or> i = ACTION_MAX then (- EINVAL, a\<lparr>idx := ACTION_DUMMY\<rparr>)
        else (0, a\<lparr>idx := i\<rparr>))"
    using assms(1) hd(1) no by (simp add: decide_type_def decide_type_find)
  with assms(3,4) show ?thesis
    by (auto simp add: Let_def is_delay_or_timer_def ACTION_defs EINVAL_def split: if_splits)
qed


subsubsection \<open>decide_subinfo\<close>

lemma decide_subinfo_usleep_keeps:
  "decide_subinfo_usleep sub a = (r, a') \<Longrightarrow> idx a' = idx a \<and> atype a' = atype a"
  by (auto simp: decide_subinfo_usleep_def Let_def split: if_splits list.splits)

lemma decide_subinfo_pinctrl_keeps:
  "decide_subinfo_pinctrl e sub a s = (r, a', s') \<Longrightarrow>
     idx a' = idx a \<and> atype a' = atype a \<and> dt_nodes s' = dt_nodes s \<and>
     (\<exists>evs. trace s' = trace s @ evs \<and> (\<forall>ev\<in>set evs. is_resolver ev))"
  by (auto simp: decide_subinfo_pinctrl_def Let_def split: if_splits)

lemma decide_subinfo_timer_start_Inr:
  "decide_subinfo_timer_start sub a s = Inr (r, a', s') \<Longrightarrow>
     idx a' = idx a \<and> atype a' = atype a \<and> dt_nodes s' = dt_nodes s \<and> trace s' = trace s"
  by (auto simp: decide_subinfo_timer_start_def Let_def
      split: option.splits prod.splits sum.splits if_splits dest!: find_timer_Inr)

lemma decide_subinfo_timer_start_Inl:
  "decide_subinfo_timer_start sub a s = Inl (f, s') \<Longrightarrow>
     dt_nodes s' = dt_nodes s \<and> trace s' = trace s"
  by (auto simp: decide_subinfo_timer_start_def Let_def
      split: option.splits prod.splits sum.splits if_splits dest!: find_timer_Inr find_timer_Inl)

lemma decide_subinfo_Inr:
  assumes "decide_subinfo e a s = Inr (r, a', s')"
  shows "idx a' = idx a \<and> atype a' = atype a \<and> dt_nodes s' = dt_nodes s \<and>
         (\<exists>evs. trace s' = trace s @ evs \<and> (\<forall>ev\<in>set evs. is_resolver ev))"
  using assms
  by (auto simp: decide_subinfo_def Let_def
      split: option.splits prod.splits sum.splits if_splits
      dest!: find_timer_Inr decide_subinfo_usleep_keeps decide_subinfo_pinctrl_keeps
        decide_subinfo_timer_start_Inr)

lemma decide_subinfo_Inr_delay_timer:
  assumes "decide_subinfo e a s = Inr (r, a', s')" and "is_delay_or_timer a"
  shows "trace s' = trace s"
  using assms
  by (auto simp: decide_subinfo_def Let_def is_delay_or_timer_def ACTION_defs
      split: option.splits prod.splits sum.splits if_splits
      dest!: find_timer_Inr decide_subinfo_timer_start_Inr)

lemma decide_subinfo_Inl:
  assumes "decide_subinfo e a s = Inl (f, s')"
  shows "dt_nodes s' = dt_nodes s \<and> trace s' = trace s"
  using assms
  by (auto simp: decide_subinfo_def Let_def
      split: option.splits prod.splits sum.splits if_splits
      dest!: find_timer_Inl decide_subinfo_timer_start_Inl)


subsubsection \<open>make_list\<close>

lemma make_list_body_AddedE:
  assumes "make_list_body e np k count i s = Added a r s'"
  shows "\<exists>ty sub r1 a1 a2 s2.
          (lcdtype e = 0 \<longrightarrow> STRNEQ ''delay'' ty \<or> STRNEQ ''timer'' ty) \<and>
          decide_type (zero_action\<lparr>atype := Some ty, subinfo := Some sub\<rparr>) = (r1, a1) \<and>
          0 \<le> r1 \<and> decide_subinfo e a1 s = Inr (r, a2, s2) \<and>
          0 \<le> r \<and> idx a = idx a2 \<and> s' = list_add_tail a k s2"
proof (cases "of_property_read_string_index (type_prop np) (i * 2) None")
  case None
  with assms show ?thesis by (simp add: make_list_body_def)
next
  case ty: (Some ty)
  show ?thesis
  proof (cases "of_property_read_string_index (type_prop np) (i * 2 + 1) None")
    case None
    with assms ty show ?thesis by (simp add: make_list_body_def)
  next
    case sub: (Some sub)
    obtain r1 a1 where dt:
      "decide_type (zero_action\<lparr>atype := Some ty, subinfo := Some sub\<rparr>) = (r1, a1)"
      by (cases "decide_type (zero_action\<lparr>atype := Some ty, subinfo := Some sub\<rparr>)")
    from assms ty sub dt have skip: "lcdtype e = 0 \<longrightarrow> STRNEQ ''delay'' ty \<or> STRNEQ ''timer'' ty"
      and r1: "0 \<le> r1"
      by (auto simp: make_list_body_def Let_def split: if_splits)
    from assms ty sub dt skip r1 obtain a2 s2 where ds: "decide_subinfo e a1 s = Inr (r, a2, s2)"
      and a: "0 \<le> r" "idx a = idx a2" and s': "s' = list_add_tail a k s2"
      by (auto simp: make_list_body_def Let_def split: if_splits sum.splits prod.splits)
    from skip dt r1 ds a s' show ?thesis by blast
  qed
qed

lemma make_list_body_Added_no_panel:
  assumes "make_list_body e np k count i s = Added a r s'" and "lcdtype e = 0"
  shows "is_delay_or_timer a \<and> trace s' = trace s"
proof -
  from make_list_body_AddedE [OF assms(1)] assms(2) obtain ty sub r1 a1 a2 s2 where
    ty: "STRNEQ ''delay'' ty \<or> STRNEQ ''timer'' ty"
    and dt: "decide_type (zero_action\<lparr>atype := Some ty, subinfo := Some sub\<rparr>) = (r1, a1)"
    and r1: "0 \<le> r1"
    and ds: "decide_subinfo e a1 s = Inr (r, a2, s2)"
    and a: "idx a = idx a2" and s': "s' = list_add_tail a k s2"
    by blast
  from decide_type_delay_timer [OF _ ty dt r1] have k1: "is_delay_or_timer a1" by simp
  from decide_subinfo_Inr [OF ds] have "idx a2 = idx a1" by simp
  with k1 a have "is_delay_or_timer a" by (simp add: is_delay_or_timer_def)
  moreover from decide_subinfo_Inr_delay_timer [OF ds k1] s' have "trace s' = trace s" by simp
  ultimately show ?thesis by simp
qed

lemma make_list_body_Added:
  assumes "make_list_body e np k count i s = Added a r s'"
  shows "0 \<le> r \<and> map dt_name (dt_nodes s') = map dt_name (dt_nodes s) \<and>
         length (dt_nodes s') = length (dt_nodes s) \<and>
         (k < length (dt_nodes s) \<longrightarrow> lh_of s' k = lh_of s k @ [a]) \<and>
         (\<exists>evs. trace s' = trace s @ evs \<and> (\<forall>ev\<in>set evs. is_resolver ev))"
proof -
  from make_list_body_AddedE [OF assms] obtain a1 a2 s2 where
    ds: "decide_subinfo e a1 s = Inr (r, a2, s2)" and r: "0 \<le> r"
    and s': "s' = list_add_tail a k s2"
    by blast
  from decide_subinfo_Inr [OF ds] have nodes: "dt_nodes s2 = dt_nodes s"
    and tr: "\<exists>evs. trace s2 = trace s @ evs \<and> (\<forall>ev\<in>set evs. is_resolver ev)"
    by simp_all
  from nodes have "lh_of s2 k = lh_of s k" by (rule lh_of_cong)
  with nodes s' have "k < length (dt_nodes s) \<longrightarrow> lh_of s' k = lh_of s k @ [a]"
    by (simp add: lh_of_list_add_tail)
  with r nodes tr s' show ?thesis by simp
qed

lemma make_list_body_Broke:
  assumes "make_list_body e np k count i s = Broke a r s'"
  shows "r < 0 \<and> dt_nodes s' = dt_nodes s \<and>
         (\<exists>evs. trace s' = trace s @ evs \<and> (\<forall>ev\<in>set evs. is_resolver ev))"
  using assms
  apply (simp add: make_list_body_def Let_def
      split: option.splits prod.splits sum.splits if_splits)
  apply (auto dest!: decide_subinfo_Inr)
  done

lemma make_list_body_Crashed:
  assumes "make_list_body e np k count i s = Crashed f s'"
  shows "dt_nodes s' = dt_nodes s \<and> trace s' = trace s"
  using assms
  apply (simp add: make_list_body_def Let_def
      split: option.splits prod.splits sum.splits if_splits)
  apply (auto dest!: decide_subinfo_Inl)
  done


lemma make_list_exit_Inr:
  "make_list_exit cur ret s = Inr (r, s') \<Longrightarrow> r = ret \<and> 0 \<le> ret \<and> s' = s"
  by (auto simp: make_list_exit_def split: if_splits)

lemma make_list_exit_Inl:
  "make_list_exit cur ret s = Inl (f, s') \<Longrightarrow> f = BUG \<and> ret < 0 \<and> dt_nodes s' = dt_nodes s"
  by (auto simp: make_list_exit_def split: if_splits option.splits)

lemma make_list_for_Inr:
  assumes "make_list_for e np k count i cur ret s = Inr (r, s')" and "k < length (dt_nodes s)"
  shows "0 \<le> r \<and> map dt_name (dt_nodes s') = map dt_name (dt_nodes s) \<and>
         (\<exists>new. lh_of s' k = lh_of s k @ new \<and>
                (lcdtype e = 0 \<longrightarrow> (\<forall>a\<in>set new. is_delay_or_timer a))) \<and>
         (\<exists>evs. trace s' = trace s @ evs \<and> (\<forall>ev\<in>set evs. is_resolver ev)) \<and>
         (lcdtype e = 0 \<longrightarrow> trace s' = trace s)"
  using assms
proof (induction e np k count i cur ret s rule: make_list_for.induct)
  case (1 e np k count i cur ret s)
  show ?case
  proof (cases "i < count")
    case False
    with "1.prems"(1) have "make_list_exit cur ret s = Inr (r, s')"
      by (simp add: make_list_for.simps [of e np k count i])
    from make_list_exit_Inr [OF this] show ?thesis by simp
  next
    case True
    show ?thesis
    proof (cases "make_list_body e np k count i s")
      case Skipped
      with True "1.prems"(1) have "make_list_for e np k count (i + 1) cur ret s = Inr (r, s')"
        by (simp add: make_list_for.simps [of e np k count i])
      from "1.IH"(1) [OF True Skipped this "1.prems"(2)] show ?thesis .
    next
      case (Broke a r' s2)
      with True "1.prems"(1) have "make_list_exit (Some a) r' s2 = Inr (r, s')"
        by (simp add: make_list_for.simps [of e np k count i])
      from make_list_exit_Inr [OF this] make_list_body_Broke [OF Broke] show ?thesis by simp
    next
      case (Crashed f s2)
      with True "1.prems"(1) show ?thesis
        by (simp add: make_list_for.simps [of e np k count i])
    next
      case (Added a r' s2)
      with True "1.prems"(1) have
        run: "make_list_for e np k count (i + 1) (Some a) r' s2 = Inr (r, s')"
        by (simp add: make_list_for.simps [of e np k count i])
      from make_list_body_Added [OF Added] "1.prems"(2) have
        names: "map dt_name (dt_nodes s2) = map dt_name (dt_nodes s)"
        and len: "k < length (dt_nodes s2)"
        and lh: "lh_of s2 k = lh_of s k @ [a]"
        and tr: "\<exists>evs. trace s2 = trace s @ evs \<and> (\<forall>ev\<in>set evs. is_resolver ev)"
        by simp_all
      from "1.IH"(2) [OF True Added run len] have
        r: "0 \<le> r" and names': "map dt_name (dt_nodes s') = map dt_name (dt_nodes s2)"
        and lh': "\<exists>new. lh_of s' k = lh_of s2 k @ new \<and>
                (lcdtype e = 0 \<longrightarrow> (\<forall>a\<in>set new. is_delay_or_timer a))"
        and tr': "\<exists>evs. trace s' = trace s2 @ evs \<and> (\<forall>ev\<in>set evs. is_resolver ev)"
        and tr0: "lcdtype e = 0 \<longrightarrow> trace s' = trace s2"
        by simp_all
      from lh' obtain new where new: "lh_of s' k = lh_of s2 k @ new"
        "lcdtype e = 0 \<longrightarrow> (\<forall>a\<in>set new. is_delay_or_timer a)" by blast
      from make_list_body_Added_no_panel [OF Added] have
        a0: "lcdtype e = 0 \<longrightarrow> is_delay_or_timer a \<and> trace s2 = trace s" by blast
      have "lh_of s' k = lh_of s k @ (a # new) \<and>
            (lcdtype e = 0 \<longrightarrow> (\<forall>a\<in>set (a # new). is_delay_or_timer a))"
        using new lh a0 by simp
      then have c1: "\<exists>new. lh_of s' k = lh_of s k @ new \<and>
                (lcdtype e = 0 \<longrightarrow> (\<forall>a\<in>set new. is_delay_or_timer a))" by blast
      from tr obtain evs where evs: "trace s2 = trace s @ evs" "\<forall>ev\<in>set evs. is_resolver ev"
        by blast
      from tr' obtain evs' where evs': "trace s' = trace s2 @ evs'"
        "\<forall>ev\<in>set evs'. is_resolver ev" by blast
      from evs evs' have "trace s' = trace s @ (evs @ evs') \<and>
          (\<forall>ev\<in>set (evs @ evs'). is_resolver ev)" by auto
      then have c2: "\<exists>evs. trace s' = trace s @ evs \<and> (\<forall>ev\<in>set evs. is_resolver ev)" by blast
      from r names names' c1 c2 tr0 a0 show ?thesis by simp
    qed
  qed
qed

lemma make_list_for_Inl:
  assumes "make_list_for e np k count i cur ret s = Inl (f, s')" and "k < length (dt_nodes s)"
  shows "\<exists>new. lh_of s' k = lh_of s k @ new"
  using assms
proof (induction e np k count i cur ret s rule: make_list_for.induct)
  case (1 e np k count i cur ret s)
  show ?case
  proof (cases "i < count")
    case False
    with "1.prems"(1) have "make_list_exit cur ret s = Inl (f, s')"
      by (simp add: make_list_for.simps [of e np k count i])
    from make_list_exit_Inl [OF this] have "dt_nodes s' = dt_nodes s" by simp
    then have "lh_of s' k = lh_of s k" by (rule lh_of_cong)
    then show ?thesis by simp
  next
    case True
    show ?thesis
    proof (cases "make_list_body e np k count i s")
      case Skipped
      with True "1.prems"(1) have "make_list_for e np k count (i + 1) cur ret s = Inl (f, s')"
        by (simp add: make_list_for.simps [of e np k count i])
      from "1.IH"(1) [OF True Skipped this "1.prems"(2)] show ?thesis .
    next
      case (Broke a r' s2)
      with True "1.prems"(1) have "make_list_exit (Some a) r' s2 = Inl (f, s')"
        by (simp add: make_list_for.simps [of e np k count i])
      from make_list_exit_Inl [OF this] make_list_body_Broke [OF Broke]
      have "dt_nodes s' = dt_nodes s" by simp
      then have "lh_of s' k = lh_of s k" by (rule lh_of_cong)
      then show ?thesis by simp
    next
      case (Crashed f2 s2)
      with True "1.prems"(1) have "s' = s2"
        by (simp add: make_list_for.simps [of e np k count i])
      with make_list_body_Crashed [OF Crashed] have "dt_nodes s' = dt_nodes s" by simp
      then have "lh_of s' k = lh_of s k" by (rule lh_of_cong)
      then show ?thesis by simp
    next
      case (Added a r' s2)
      with True "1.prems"(1) have
        run: "make_list_for e np k count (i + 1) (Some a) r' s2 = Inl (f, s')"
        by (simp add: make_list_for.simps [of e np k count i])
      from make_list_body_Added [OF Added] "1.prems"(2) have
        len: "k < length (dt_nodes s2)" and lh: "lh_of s2 k = lh_of s k @ [a]"
        by simp_all
      from "1.IH"(2) [OF True Added run len] lh show ?thesis by auto
    qed
  qed
qed


lemma make_list_cases:
  "make_list e dev k name s =
     Inr (- EINVAL, list_add_tail zero_action k (log_event (Make_list name) s)) \<or>
   (\<exists>np count. make_list e dev k name s =
      make_list_for e np k count 0 None 0 (log_event (Make_list name) s))"
  by (auto simp: make_list_def Let_def split: option.splits)

lemma make_list_Inr:
  assumes "make_list e dev k name s = Inr (r, s')" and "k < length (dt_nodes s)"
  shows "map dt_name (dt_nodes s') = map dt_name (dt_nodes s) \<and>
         (\<exists>evs. trace s' = trace s @ Make_list name # evs \<and> (\<forall>ev\<in>set evs. is_resolver ev))"
proof -
  consider (placeholder) "make_list e dev k name s =
      Inr (- EINVAL, list_add_tail zero_action k (log_event (Make_list name) s))"
    | (loop) np count where "make_list e dev k name s =
      make_list_for e np k count 0 None 0 (log_event (Make_list name) s)"
    using make_list_cases [of e dev k name s] by blast
  then show ?thesis
  proof cases
    case placeholder
    with assms(1) have "s' = list_add_tail zero_action k (log_event (Make_list name) s)"
      by simp
    then show ?thesis by simp
  next
    case loop
    with assms(1) have
      "make_list_for e np k count 0 None 0 (log_event (Make_list name) s) = Inr (r, s')"
      by simp
    from make_list_for_Inr [OF this] assms(2) show ?thesis by auto
  qed
qed

subsubsection \<open>do_list\<close>

lemma do_timer_delay_keeps:
  "dt_nodes (do_timer_delay e p s) = dt_nodes s \<and>
   (\<exists>evs. trace (do_timer_delay e p s) = trace s @ evs \<and> (\<forall>ev\<in>set evs. is_actuator ev))"
  by (simp add: do_timer_delay_def Let_def)

lemma do_action_Inr:
  assumes "do_action e a ret s = Inr (r, s')"
  shows "dt_nodes s' = dt_nodes s \<and>
         (\<exists>evs. trace s' = trace s @ evs \<and> (\<forall>ev\<in>set evs. is_actuator ev))"
  using assms do_timer_delay_keeps [of e _ s]
  by (auto simp: do_action_def Let_def split: if_splits option.splits sum.splits prod.splits)

lemma do_list_loop_Inr:
  "do_list_loop e lh ret s = Inr (r, s') \<Longrightarrow>
     dt_nodes s' = dt_nodes s \<and>
     (\<exists>evs. trace s' = trace s @ evs \<and> (\<forall>ev\<in>set evs. is_actuator ev))"
proof (induction lh arbitrary: ret s)
  case Nil
  then show ?case by simp
next
  case (Cons a lh)
  from Cons.prems obtain r1 s1 where a: "do_action e a ret s = Inr (r1, s1)"
    and rest: "do_list_loop e lh r1 s1 = Inr (r, s')"
    by (auto split: sum.splits)
  from do_action_Inr [OF a] obtain evs where
    1: "dt_nodes s1 = dt_nodes s" "trace s1 = trace s @ evs" "\<forall>ev\<in>set evs. is_actuator ev"
    by blast
  from Cons.IH [OF rest] obtain evs' where
    2: "dt_nodes s' = dt_nodes s1" "trace s' = trace s1 @ evs'" "\<forall>ev\<in>set evs'. is_actuator ev"
    by blast
  from 1 2 have "dt_nodes s' = dt_nodes s \<and> trace s' = trace s @ (evs @ evs') \<and>
      (\<forall>ev\<in>set (evs @ evs'). is_actuator ev)" by auto
  then show ?case by blast
qed

lemma do_list_Inr:
  "do_list e lh s = Inr (r, s') \<Longrightarrow>
     dt_nodes s' = dt_nodes s \<and>
     (\<exists>evs. trace s' = trace s @ evs \<and> (\<forall>ev\<in>set evs. is_actuator ev))"
  by (auto simp: do_list_def split: sum.splits if_splits dest!: do_list_loop_Inr)

subsubsection \<open>find_list\<close>

lemma find_list_from_names:
  "map dt_name ns' = map dt_name ns \<Longrightarrow> find_list_from name ns' i = find_list_from name ns i"
proof (induction ns arbitrary: ns' i)
  case Nil
  then show ?case by simp
next
  case (Cons n ns)
  then obtain n' ns'' where ns': "ns' = n' # ns''" "dt_name n' = dt_name n"
    and rest: "map dt_name ns'' = map dt_name ns" by (cases ns') auto
  from Cons.IH [OF rest, of "i + 1"] ns' show ?case by simp
qed

lemma find_list_from_found:
  "find_list_from name ns i = Inr (k, True) \<Longrightarrow> i \<le> k \<and> k < i + length ns"
proof (induction ns arbitrary: i)
  case Nil
  then show ?case by simp
next
  case (Cons n ns)
  then show ?case by (fastforce split: if_splits)
qed

lemma find_list_from_not_found:
  "find_list_from name ns i = Inr (k, False) \<Longrightarrow>
     k = i + length ns \<and>
     find_list_from name (ns @ [\<lparr>dt_name = name, dt_list = l\<rparr>]) i = Inr (k, True)"
proof (induction ns arbitrary: i)
  case Nil
  then show ?case by (simp add: STREQ_def)
next
  case (Cons n ns)
  then show ?case by (fastforce split: if_splits)
qed

lemma find_list_Inr:
  assumes "find_list name s = Inr (k, s1)"
  shows "k < length (dt_nodes s1) \<and> find_list_from name (dt_nodes s1) 0 = Inr (k, True) \<and>
         trace s1 = trace s \<and> timers s1 = timers s \<and> clock_reads s1 = clock_reads s"
proof (cases "find_list_from name (dt_nodes s) 0")
  case (Inl f)
  with assms show ?thesis by (simp add: find_list_def)
next
  case (Inr p)
  obtain k' found where p: "p = (k', found)" by (cases p)
  show ?thesis
  proof (cases found)
    case True
    with Inr p assms have "k' = k" "s1 = s" by (simp_all add: find_list_def)
    with Inr p True find_list_from_found [of name "dt_nodes s" 0 k] show ?thesis by simp
  next
    case False
    with Inr p assms have k: "k' = k"
      and s1: "s1 = s\<lparr>dt_nodes := dt_nodes s @ [\<lparr>dt_name = name, dt_list = []\<rparr>]\<rparr>"
      by (simp_all add: find_list_def)
    from Inr p False k find_list_from_not_found [of name "dt_nodes s" 0 k "[]"] s1
    show ?thesis by simp
  qed
qed

lemma cached_eq:
  "map dt_name (dt_nodes s') = map dt_name (dt_nodes s) \<Longrightarrow>
   find_list_from name (dt_nodes s) 0 = Inr (k, True) \<Longrightarrow>
   cached s' name = Some (lh_of s' k)"
  using find_list_from_names [of "dt_nodes s'" "dt_nodes s" name 0]
  by (simp add: cached_def)

lemma cached_Some:
  "cached s name = Some lh \<Longrightarrow>
     \<exists>k. find_list name s = Inr (k, s) \<and> lh_of s k = lh \<and>
         find_list_from name (dt_nodes s) 0 = Inr (k, True)"
  by (auto simp: cached_def find_list_def split: sum.splits prod.splits if_splits)

lemma count_list_append: "count_list (xs @ ys) x = count_list xs x + count_list ys x"
  by (induction xs) auto

lemma count_no_build_resolver:
  "\<forall>ev\<in>set evs. is_resolver ev \<Longrightarrow> count_list evs (Make_list name) = 0"
  by (induction evs) auto

lemma count_no_build_actuator:
  "\<forall>ev\<in>set evs. is_actuator ev \<Longrightarrow> count_list evs (Make_list name) = 0"
  by (induction evs) auto

lemma filter_resolver_actuator:
  "\<forall>ev\<in>set evs. is_actuator ev \<Longrightarrow> filter is_resolver evs = []"
proof (induction evs)
  case Nil
  then show ?case by simp
next
  case (Cons ev evs)
  then show ?case by (cases ev) auto
qed

lemma cached_cong: "dt_nodes s' = dt_nodes s \<Longrightarrow> cached s' name = cached s name"
  by (auto simp: cached_def lh_of_def split: sum.splits)

lemma run_list_cached:
  assumes "cached s name = Some lh" and "lh \<noteq> []"
  shows "run_list e dev name s = (case do_list e lh s of Inl f \<Rightarrow> Inl f | Inr (r, s') \<Rightarrow> Inr s')"
proof -
  from cached_Some [OF assms(1)] obtain k where
    "find_list name s = Inr (k, s)" "lh_of s k = lh" by blast
  with assms(2) show ?thesis
    by (simp add: run_list_def split: sum.splits prod.splits)
qed

lemma run_list_cached_Inr:
  assumes "cached s name = Some lh" and "lh \<noteq> []" and "run_list e dev name s = Inr s'"
  shows "cached s' name = Some lh \<and> builds s' name = builds s name \<and>
         filter is_resolver (trace s') = filter is_resolver (trace s) \<and>
         (\<exists>evs. trace s' = trace s @ evs \<and> (\<forall>ev\<in>set evs. is_actuator ev))"
proof -
  from run_list_cached [OF assms(1,2), of e dev] assms(3) obtain r where
    "do_list e lh s = Inr (r, s')"
    by (auto split: sum.splits prod.splits)
  from do_list_Inr [OF this] obtain evs where nodes: "dt_nodes s' = dt_nodes s"
    and tr: "trace s' = trace s @ evs" and act: "\<forall>ev\<in>set evs. is_actuator ev"
    by blast
  from cached_cong [OF nodes, of name] assms(1) have "cached s' name = Some lh" by simp
  moreover from tr act have "builds s' name = builds s name"
    by (simp add: builds_def count_list_append count_no_build_actuator)
  moreover from tr act have "filter is_resolver (trace s') = filter is_resolver (trace s)"
    by (simp add: filter_resolver_actuator)
  ultimately show ?thesis using tr act by blast
qed

lemma find_list_empty:
  assumes "cached s name = None \<or> cached s name = Some []"
    and "find_list name s = Inr (k, s1)"
  shows "lh_of s1 k = []"
proof (cases "find_list_from name (dt_nodes s) 0")
  case (Inl f)
  with assms(2) show ?thesis by (simp add: find_list_def)
next
  case (Inr p)
  obtain k' found where p: "p = (k', found)" by (cases p)
  show ?thesis
  proof (cases found)
    case True
    with Inr p assms show ?thesis by (auto simp: find_list_def cached_def)
  next
    case False
    with Inr p assms(2) have k: "k' = k"
      and s1: "s1 = s\<lparr>dt_nodes := dt_nodes s @ [\<lparr>dt_name = name, dt_list = []\<rparr>]\<rparr>"
      by (simp_all add: find_list_def)
    from Inr p False k find_list_from_not_found [of name "dt_nodes s" 0 k "[]"]
    have "k = length (dt_nodes s)" by simp
    with s1 show ?thesis by (simp add: lh_of_def)
  qed
qed

lemma run_list_build_Inr:
  assumes "cached s name = None \<or> cached s name = Some []"
    and "run_list e dev name s = Inr s'"
  shows "builds s' name = builds s name + 1 \<and> cached s' name \<noteq> None"
proof -
  from assms(2) obtain k s1 where fl: "find_list name s = Inr (k, s1)"
    by (auto simp: run_list_def split: sum.splits prod.splits)
  from find_list_empty [OF assms(1) fl] have empty: "lh_of s1 k = []" .
  from find_list_Inr [OF fl] have k: "k < length (dt_nodes s1)"
    and found: "find_list_from name (dt_nodes s1) 0 = Inr (k, True)"
    and tr1: "trace s1 = trace s" by simp_all
  from assms(2) fl empty obtain r2 s2 r3 where ml: "make_list e dev k name s1 = Inr (r2, s2)"
    and dl: "do_list e (lh_of s2 k) s2 = Inr (r3, s')"
    by (auto simp: run_list_def split: sum.splits prod.splits)
  from make_list_Inr [OF ml k] obtain evs where
    names: "map dt_name (dt_nodes s2) = map dt_name (dt_nodes s1)"
    and tr2: "trace s2 = trace s1 @ Make_list name # evs" and res: "\<forall>ev\<in>set evs. is_resolver ev"
    by blast
  from do_list_Inr [OF dl] obtain evs' where nodes: "dt_nodes s' = dt_nodes s2"
    and tr3: "trace s' = trace s2 @ evs'" and act: "\<forall>ev\<in>set evs'. is_actuator ev"
    by blast
  from tr1 tr2 tr3 res act have "builds s' name = builds s name + 1"
    by (simp add: builds_def count_list_append count_no_build_resolver count_no_build_actuator)
  moreover from names nodes have "map dt_name (dt_nodes s') = map dt_name (dt_nodes s1)" by simp
  from cached_eq [OF this found] have "cached s' name \<noteq> None" by simp
  ultimately show ?thesis by simp
qed

lemma run_list_build:
  assumes "cached s name = None \<or> cached s name = Some []"
    and "find_list name s = Inr (k, s1)"
  shows "run_list e dev name s =
    (case make_list e dev k name s1 of
       Inl f \<Rightarrow> Inl f
     | Inr (r, s2) \<Rightarrow>
         (case do_list e (lh_of s2 k) s2 of Inl f \<Rightarrow> Inl f | Inr (r', s') \<Rightarrow> Inr s'))"
  using find_list_empty [OF assms] assms(2)
  by (simp add: run_list_def split: sum.splits prod.splits)

lemma make_list_built:
  assumes "find_list name s = Inr (k, s1)" and "make_list e dev k name s1 = Inr (r, s2)"
  shows "builds s2 name = builds s name + 1 \<and> cached s2 name = Some (lh_of s2 k)"
proof -
  from find_list_Inr [OF assms(1)] have k: "k < length (dt_nodes s1)"
    and found: "find_list_from name (dt_nodes s1) 0 = Inr (k, True)"
    and tr1: "trace s1 = trace s" by simp_all
  from make_list_Inr [OF assms(2) k] obtain evs where
    names: "map dt_name (dt_nodes s2) = map dt_name (dt_nodes s1)"
    and tr2: "trace s2 = trace s1 @ Make_list name # evs" and res: "\<forall>ev\<in>set evs. is_resolver ev"
    by blast
  from tr1 tr2 res have "builds s2 name = builds s name + 1"
    by (simp add: builds_def count_list_append count_no_build_resolver)
  with cached_eq [OF names found] show ?thesis by simp
qed

lemma do_list_zero_action: "do_list e [zero_action] s = Inr (0, s)"
  by (simp add: do_list_def do_action_def zero_action_def ACTION_defs)

lemmas usleep_unfold =
  decide_subinfo_def decide_subinfo_usleep_def zero_action_def ACTION_defs Let_def
  MSEC_TO_USEC_def SMALL_MSECS_def USEC_PER_MSEC_def EINVAL_def ucast_ge_20000

subsubsection \<open>Decimal numerals and sscanf\<close>

lemma isdigit_not_space: "isdigit c \<Longrightarrow> \<not> isspace c"
  by (auto simp: isdigit_def isspace_def)

lemma isdigit_not_minus: "isdigit c \<Longrightarrow> c \<noteq> CHR ''-''"
  by (auto simp: isdigit_def)

lemma parse_integer_decimal: "parse_integer ds (of_nat n) = of_nat (decimal ds n)"
proof (induction ds arbitrary: n)
  case Nil
  then show ?case by simp
next
  case (Cons c cs)
  from Cons.IH [of "n * 10 + (of_char c - 48)"] show ?case by simp
qed

lemma decimal_bound: "list_all isdigit ds \<Longrightarrow> decimal ds n < (n + 1) * 10 ^ length ds"
proof (induction ds arbitrary: n)
  case Nil
  then show ?case by simp
next
  case (Cons c cs)
  from Cons.prems have "isdigit c" and rest: "list_all isdigit cs" by simp_all
  then have d: "(of_char c :: nat) - 48 \<le> 9" unfolding isdigit_def by linarith
  from Cons.IH [OF rest, of "n * 10 + (of_char c - 48)"]
  have "decimal (c # cs) n < (n * 10 + (of_char c - 48) + 1) * 10 ^ length cs" by simp
  also from d have "\<dots> \<le> (n * 10 + 10) * 10 ^ length cs"
    by (intro mult_le_mono1) simp
  also have "\<dots> = (n + 1) * 10 ^ length (c # cs)" by (simp add: algebra_simps)
  finally show ?case .
qed

lemma decimal_numeral8: "is_numeral8 ds \<Longrightarrow> decimal ds 0 < 100000000"
proof -
  assume a: "is_numeral8 ds"
  then have "decimal ds 0 < 10 ^ length ds" using decimal_bound [of ds 0] by (simp add: is_numeral8_def)
  also from a have "(10::nat) ^ length ds \<le> 10 ^ 8" by (intro power_increasing) (simp_all add: is_numeral8_def)
  finally show ?thesis by simp
qed

lemma ucast_of_nat_down: "(ucast (of_nat n :: u64) :: u32) = of_nat n"
  by (rule bit_word_eqI) (auto simp: bit_simps)

lemma unat_of_nat_u32: "n < 4294967296 \<Longrightarrow> unat (of_nat n :: u32) = n"
  by (simp add: unat_of_nat)

lemma drop_bit_of_nat_u32:
  assumes "n < 4294967296"
  shows "drop_bit 1 (of_nat n :: u32) = of_nat (n div 2)"
proof -
  from assms have "n div 2 < 4294967296" by simp
  then have "unat (of_nat (n div 2) :: u32) = n div 2" by (rule unat_of_nat_u32)
  moreover have "unat (drop_bit 1 (of_nat n :: u32)) = n div 2"
    using assms by (simp add: unat_div unat_of_nat_u32 drop_bit_Suc)
  ultimately show ?thesis by (simp add: word_unat_eq_iff)
qed

lemma scan_d8_numeral:
  assumes "is_numeral8 ds" and "rest = [] \<or> \<not> isdigit (hd rest)"
  shows "scan_d8 (ds @ rest) = Some (of_nat (decimal ds 0), rest)"
proof -
  from assms(1) obtain c cs where ds: "ds = c # cs" and c: "isdigit c"
    and all: "list_all isdigit ds" and len: "length ds \<le> 8"
    by (cases ds) (auto simp: is_numeral8_def)
  from c have skip: "skip_spaces (ds @ rest) = ds @ rest"
    by (simp add: skip_spaces_def ds isdigit_not_space)
  from c have minus: "hd (ds @ rest) \<noteq> CHR ''-''"
    by (simp add: ds isdigit_not_minus)
  from assms(2) have "takeWhile isdigit rest = []"
    by (cases rest) auto
  with all have tw: "takeWhile isdigit (ds @ rest) = ds"
    by (simp add: takeWhile_append list_all_iff)
  from len have n: "length ds - 8 = 0" "min (length ds) 8 = length ds" by simp_all
  from c have hd: "isdigit (hd (ds @ rest))" "ds @ rest \<noteq> []" by (simp_all add: ds)
  show ?thesis
    unfolding scan_d8_def Let_def skip
    using minus tw n hd parse_integer_decimal [of ds 0]
    by (simp add: ucast_of_nat_down)
qed


lemma sscanf_d8_d8_one:
  assumes "is_numeral8 ls"
  shows "sscanf_d8_d8 ls = [of_nat (decimal ls 0)]"
  using assms scan_d8_numeral [of ls "[]"]
  by (simp add: sscanf_d8_d8_def skip_spaces_def is_numeral8_def)

lemma sscanf_d8_d8_two:
  assumes "is_numeral8 ls" and "is_numeral8 hs" and "sep \<noteq> []" and "list_all isspace sep"
  shows "sscanf_d8_d8 (ls @ sep @ hs) = [of_nat (decimal ls 0), of_nat (decimal hs 0)]"
proof -
  from assms(3,4) have "\<not> isdigit (hd (sep @ hs))"
    using isdigit_not_space [of "hd sep"] by (cases sep) auto
  with assms(1) have first: "scan_d8 (ls @ sep @ hs) = Some (of_nat (decimal ls 0), sep @ hs)"
    by (intro scan_d8_numeral) simp_all
  from assms(2) have "hs \<noteq> []" "isdigit (hd hs)"
    by (cases hs; simp add: is_numeral8_def)+
  then have "dropWhile isspace hs = hs"
    using isdigit_not_space [of "hd hs"] by (cases hs) auto
  with assms(4) have skip: "skip_spaces (sep @ hs) = hs"
    by (simp add: skip_spaces_def dropWhile_append list_all_iff)
  from assms(2) scan_d8_numeral [of hs "[]"]
  have second: "scan_d8 hs = Some (of_nat (decimal hs 0), [])" by simp
  from assms(1) have "ls @ sep @ hs \<noteq> []" by (simp add: is_numeral8_def)
  with first skip second \<open>hs \<noteq> []\<close> show ?thesis
    by (simp add: sscanf_d8_d8_def)
qed

lemma of_nat_u32_iff:
  assumes "m < 4294967296" and "n < 4294967296"
  shows "((of_nat m :: u32) = of_nat n) = (m = n)"
    and "((of_nat m :: u32) < of_nat n) = (m < n)"
    and "((of_nat m :: u32) \<le> of_nat n) = (m \<le> n)"
  using assms
  by (simp_all add: word_of_nat_eq_iff of_nat_word_less_iff of_nat_word_less_eq_iff
      take_bit_nat_eq_self)

lemma decide_subinfo_usleep_one:
  assumes "sub \<noteq> []" and "isdigit (hd sub)" and "sscanf_d8_d8 sub = [a]"
  shows "decide_subinfo e
           (zero_action\<lparr>atype := Some ty, subinfo := Some sub, idx := ACTION_DELAY_USLEEP\<rparr>) s =
         (let d = a + drop_bit 1 a; b = (if a = d then d + 1 else d)
          in Inr (if a = 0 \<or> b = 0 \<or> a > b \<or> a \<ge> 20000 then - EINVAL else 1,
                  zero_action\<lparr>atype := Some ty, subinfo := Some sub, idx := ACTION_DELAY_USLEEP,
                              delay0 := a, delay1 := b\<rparr>, s))"
  using assms by (simp add: usleep_unfold)

lemma decide_subinfo_usleep_two:
  assumes "sub \<noteq> []" and "isdigit (hd sub)" and "sscanf_d8_d8 sub = [a, b]"
  shows "decide_subinfo e
           (zero_action\<lparr>atype := Some ty, subinfo := Some sub, idx := ACTION_DELAY_USLEEP\<rparr>) s =
         Inr (if a = 0 \<or> b = 0 \<or> a > b \<or> a \<ge> 20000 then - EINVAL else 2,
              zero_action\<lparr>atype := Some ty, subinfo := Some sub, idx := ACTION_DELAY_USLEEP,
                          delay0 := a, delay1 := b\<rparr>, s)"
  using assms by (simp add: usleep_unfold)

subsection \<open>Ranged sleeps\<close>

text \<open>
  Claim C5, amended. Take a \<^verbatim>\<open>delay,usleep\<close> action as \<^verbatim>\<open>make_list\<close> hands it to
  \<^verbatim>\<open>decide_subinfo\<close> (a zeroed action with its type, parameter and kind set), and read
  the integers of the parameter as the specification does, as decimal numerals.

  \<^item> When the parameter is one numeral \<open>lo\<close> of at most eight digits, \<open>hi\<close> is
    derived as \<open>lo + (lo >> 1)\<close>, plus one when that equals \<open>lo\<close>; both are stored,
    and the action is rejected (the result is \<^verbatim>\<open>-EINVAL\<close>) exactly when \<open>lo = 0\<close> or
    \<open>hi = 0\<close> or \<open>lo > hi\<close> or \<open>lo \<ge> 20000\<close>; otherwise the result is 1.
  \<^item> When the parameter is two such numerals \<open>lo\<close> and \<open>hi\<close> separated by white
    space, both are stored unchanged, and the action is rejected exactly under the same
    condition; otherwise the result is 2.
  \<^item> A parameter that is empty or does not start with a digit (line 407) is rejected
    before any integer is read: the action is left as it was, and no \<open>hi\<close> is derived.

  The witness evaluates the four inputs of the specification, \<^verbatim>\<open>"10000"\<close> (10000 and
  15000), \<^verbatim>\<open>"10000 11000"\<close> (stored unchanged), \<^verbatim>\<open>"0"\<close> and \<^verbatim>\<open>"25000"\<close> (both
  rejected), and \<^verbatim>\<open>"-5"\<close>, which does not start with a digit. Parameters of another
  form are left out: a longer numeral, which the field width of \<^verbatim>\<open>%8d\<close> cuts after
  eight characters, and a second integer written with a minus sign, which \<^verbatim>\<open>%8d\<close>
  stores into the unsigned \<^verbatim>\<open>delay[1]\<close>.
\<close>

theorem usleep_rules:
  fixes e :: env and s :: state and ty :: string
  defines "request \<equiv> \<lambda>sub.
    zero_action\<lparr>atype := Some ty, subinfo := Some sub, idx := ACTION_DELAY_USLEEP\<rparr>"
  shows
    "(is_numeral8 ls \<longrightarrow>
        (let lo = decimal ls 0; d = lo + drop_bit 1 lo; hi = (if d = lo then d + 1 else d)
         in decide_subinfo e (request ls) s =
              Inr (if lo = 0 \<or> hi = 0 \<or> lo > hi \<or> lo \<ge> 20000 then - EINVAL else 1,
                   (request ls)\<lparr>delay0 := of_nat lo, delay1 := of_nat hi\<rparr>, s))) \<and>
     (is_numeral8 ls \<and> is_numeral8 hs \<and> sep \<noteq> [] \<and> list_all isspace sep \<longrightarrow>
        (let lo = decimal ls 0; hi = decimal hs 0
         in decide_subinfo e (request (ls @ sep @ hs)) s =
              Inr (if lo = 0 \<or> hi = 0 \<or> lo > hi \<or> lo \<ge> 20000 then - EINVAL else 2,
                   (request (ls @ sep @ hs))\<lparr>delay0 := of_nat lo, delay1 := of_nat hi\<rparr>, s))) \<and>
     (sub = [] \<or> \<not> isdigit (hd sub) \<longrightarrow>
        decide_subinfo e (request sub) s = Inr (- EINVAL, request sub, s))"
proof (intro conjI impI)
  assume ls: "is_numeral8 ls"
  define lo where "lo = decimal ls 0"
  define d where "d = lo + lo div 2"
  define hi where "hi = (if d = lo then d + 1 else d)"
  from ls have lo: "lo < 100000000" unfolding lo_def by (rule decimal_numeral8)
  then have bounds: "lo < 4294967296" "d < 4294967296" "hi < 4294967296" "d + 1 < 4294967296"
    unfolding d_def hi_def by (auto intro: less_trans)
  from ls have sub: "ls \<noteq> []" "isdigit (hd ls)"
    by (cases ls; simp add: is_numeral8_def)+
  have dw: "(of_nat lo :: u32) + drop_bit 1 (of_nat lo) = of_nat d"
    using drop_bit_of_nat_u32 [OF bounds(1)] by (simp add: d_def)
  have eq: "((of_nat lo :: u32) = of_nat d) = (d = lo)"
    using of_nat_u32_iff(1) [OF bounds(1,2)] by auto
  have hw: "(if (of_nat lo :: u32) = of_nat d then of_nat d + 1 else of_nat d) = (of_nat hi :: u32)"
    by (simp add: eq hi_def)
  have zero: "((of_nat lo :: u32) = 0) = (lo = 0)" "((of_nat hi :: u32) = 0) = (hi = 0)"
    using of_nat_u32_iff(1) [OF bounds(1), of 0] of_nat_u32_iff(1) [OF bounds(3), of 0]
    by simp_all
  have less: "((of_nat hi :: u32) < of_nat lo) = (hi < lo)"
    using of_nat_u32_iff(2) [OF bounds(3,1)] .
  have big: "((20000 :: u32) \<le> of_nat lo) = (20000 \<le> lo)"
    using of_nat_u32_iff(3) [OF _ bounds(1), of 20000] by simp
  from decide_subinfo_usleep_one [OF sub sscanf_d8_d8_one [OF ls], of e ty s]
  have "decide_subinfo e (request ls) s =
      Inr (if lo = 0 \<or> hi = 0 \<or> lo > hi \<or> lo \<ge> 20000 then - EINVAL else 1,
           (request ls)\<lparr>delay0 := of_nat lo, delay1 := of_nat hi\<rparr>, s)"
    unfolding request_def lo_def [symmetric] Let_def dw hw zero less big by simp
  then show "let lo = decimal ls 0; d = lo + drop_bit 1 lo; hi = (if d = lo then d + 1 else d)
         in decide_subinfo e (request ls) s =
              Inr (if lo = 0 \<or> hi = 0 \<or> lo > hi \<or> lo \<ge> 20000 then - EINVAL else 1,
                   (request ls)\<lparr>delay0 := of_nat lo, delay1 := of_nat hi\<rparr>, s)"
    by (simp add: Let_def lo_def hi_def d_def drop_bit_Suc)
next
  assume a: "is_numeral8 ls \<and> is_numeral8 hs \<and> sep \<noteq> [] \<and> list_all isspace sep"
  define lo where "lo = decimal ls 0"
  define hi where "hi = decimal hs 0"
  from a have "lo < 100000000" "hi < 100000000"
    unfolding lo_def hi_def by (simp_all add: decimal_numeral8)
  then have bounds: "lo < 4294967296" "hi < 4294967296" by simp_all
  from a have sub: "ls @ sep @ hs \<noteq> []" "isdigit (hd (ls @ sep @ hs))"
    by (cases ls; simp add: is_numeral8_def)+
  have zero: "((of_nat lo :: u32) = 0) = (lo = 0)" "((of_nat hi :: u32) = 0) = (hi = 0)"
    using of_nat_u32_iff(1) [OF bounds(1), of 0] of_nat_u32_iff(1) [OF bounds(2), of 0]
    by simp_all
  have less: "((of_nat hi :: u32) < of_nat lo) = (hi < lo)"
    using of_nat_u32_iff(2) [OF bounds(2,1)] .
  have big: "((20000 :: u32) \<le> of_nat lo) = (20000 \<le> lo)"
    using of_nat_u32_iff(3) [OF _ bounds(1), of 20000] by simp
  from a have scan: "sscanf_d8_d8 (ls @ sep @ hs) = [of_nat lo, of_nat hi]"
    unfolding lo_def hi_def by (intro sscanf_d8_d8_two) simp_all
  from decide_subinfo_usleep_two [OF sub scan, of e ty s]
  have "decide_subinfo e (request (ls @ sep @ hs)) s =
      Inr (if lo = 0 \<or> hi = 0 \<or> lo > hi \<or> lo \<ge> 20000 then - EINVAL else 2,
           (request (ls @ sep @ hs))\<lparr>delay0 := of_nat lo, delay1 := of_nat hi\<rparr>, s)"
    unfolding request_def zero less big by simp
  then show "let lo = decimal ls 0; hi = decimal hs 0
         in decide_subinfo e (request (ls @ sep @ hs)) s =
              Inr (if lo = 0 \<or> hi = 0 \<or> lo > hi \<or> lo \<ge> 20000 then - EINVAL else 2,
                   (request (ls @ sep @ hs))\<lparr>delay0 := of_nat lo, delay1 := of_nat hi\<rparr>, s)"
    by (simp add: Let_def lo_def hi_def)
next
  assume "sub = [] \<or> \<not> isdigit (hd sub)"
  then show "decide_subinfo e (request sub) s = Inr (- EINVAL, request sub, s)"
    by (auto simp: request_def usleep_unfold)
qed

theorem usleep_rules_witness:
  "decide_subinfo example_env
     (zero_action\<lparr>atype := Some ''delay,usleep'', subinfo := Some ''10000'',
                  idx := ACTION_DELAY_USLEEP\<rparr>) empty_state =
   Inr (1, zero_action\<lparr>atype := Some ''delay,usleep'', subinfo := Some ''10000'',
                         idx := ACTION_DELAY_USLEEP, delay0 := 10000, delay1 := 15000\<rparr>,
        empty_state) \<and>
   decide_subinfo example_env
     (zero_action\<lparr>atype := Some ''delay,usleep'', subinfo := Some ''10000 11000'',
                  idx := ACTION_DELAY_USLEEP\<rparr>) empty_state =
   Inr (2, zero_action\<lparr>atype := Some ''delay,usleep'', subinfo := Some ''10000 11000'',
                         idx := ACTION_DELAY_USLEEP, delay0 := 10000, delay1 := 11000\<rparr>,
        empty_state) \<and>
   decide_subinfo example_env
     (zero_action\<lparr>atype := Some ''delay,usleep'', subinfo := Some ''0'',
                  idx := ACTION_DELAY_USLEEP\<rparr>) empty_state =
   Inr (- EINVAL, zero_action\<lparr>atype := Some ''delay,usleep'', subinfo := Some ''0'',
                         idx := ACTION_DELAY_USLEEP, delay0 := 0, delay1 := 1\<rparr>,
        empty_state) \<and>
   decide_subinfo example_env
     (zero_action\<lparr>atype := Some ''delay,usleep'', subinfo := Some ''25000'',
                  idx := ACTION_DELAY_USLEEP\<rparr>) empty_state =
   Inr (- EINVAL, zero_action\<lparr>atype := Some ''delay,usleep'', subinfo := Some ''25000'',
                         idx := ACTION_DELAY_USLEEP, delay0 := 25000, delay1 := 37500\<rparr>,
        empty_state) \<and>
   decide_subinfo example_env
     (zero_action\<lparr>atype := Some ''delay,usleep'', subinfo := Some ''-5'',
                  idx := ACTION_DELAY_USLEEP\<rparr>) empty_state =
   Inr (- EINVAL, zero_action\<lparr>atype := Some ''delay,usleep'', subinfo := Some ''-5'',
                         idx := ACTION_DELAY_USLEEP\<rparr>, empty_state)"
proof -
  note inst = usleep_rules [where e = example_env and s = empty_state and ty = "''delay,usleep''"]
  have one: "decide_subinfo example_env
     (zero_action\<lparr>atype := Some ''delay,usleep'', subinfo := Some ''10000'',
                  idx := ACTION_DELAY_USLEEP\<rparr>) empty_state =
   Inr (1, zero_action\<lparr>atype := Some ''delay,usleep'', subinfo := Some ''10000'',
                         idx := ACTION_DELAY_USLEEP, delay0 := 10000, delay1 := 15000\<rparr>,
        empty_state)"
    using inst [where ls = "''10000''", THEN conjunct1]
    by (simp add: is_numeral8_def isdigit_def Let_def drop_bit_Suc)
  have two: "decide_subinfo example_env
     (zero_action\<lparr>atype := Some ''delay,usleep'', subinfo := Some ''10000 11000'',
                  idx := ACTION_DELAY_USLEEP\<rparr>) empty_state =
   Inr (2, zero_action\<lparr>atype := Some ''delay,usleep'', subinfo := Some ''10000 11000'',
                         idx := ACTION_DELAY_USLEEP, delay0 := 10000, delay1 := 11000\<rparr>,
        empty_state)"
    using inst [where ls = "''10000''" and sep = "'' ''" and hs = "''11000''",
        THEN conjunct2, THEN conjunct1]
    by (simp add: is_numeral8_def isdigit_def isspace_def Let_def)
  have zero: "decide_subinfo example_env
     (zero_action\<lparr>atype := Some ''delay,usleep'', subinfo := Some ''0'',
                  idx := ACTION_DELAY_USLEEP\<rparr>) empty_state =
   Inr (- EINVAL, zero_action\<lparr>atype := Some ''delay,usleep'', subinfo := Some ''0'',
                         idx := ACTION_DELAY_USLEEP, delay0 := 0, delay1 := 1\<rparr>,
        empty_state)"
    using inst [where ls = "''0''", THEN conjunct1]
    by (simp add: is_numeral8_def isdigit_def Let_def drop_bit_Suc)
  have big: "decide_subinfo example_env
     (zero_action\<lparr>atype := Some ''delay,usleep'', subinfo := Some ''25000'',
                  idx := ACTION_DELAY_USLEEP\<rparr>) empty_state =
   Inr (- EINVAL, zero_action\<lparr>atype := Some ''delay,usleep'', subinfo := Some ''25000'',
                         idx := ACTION_DELAY_USLEEP, delay0 := 25000, delay1 := 37500\<rparr>,
        empty_state)"
    using inst [where ls = "''25000''", THEN conjunct1]
    by (simp add: is_numeral8_def isdigit_def Let_def drop_bit_Suc)
  have sign: "decide_subinfo example_env
     (zero_action\<lparr>atype := Some ''delay,usleep'', subinfo := Some ''-5'',
                  idx := ACTION_DELAY_USLEEP\<rparr>) empty_state =
   Inr (- EINVAL, zero_action\<lparr>atype := Some ''delay,usleep'', subinfo := Some ''-5'',
                         idx := ACTION_DELAY_USLEEP\<rparr>, empty_state)"
    using inst [where sub = "''-5''", THEN conjunct2, THEN conjunct2]
    by (simp add: isdigit_def)
  from one two zero big sign show ?thesis by (intro conjI)
qed

text \<open>
  Claim C5 as stated, for every parameter string, fails on \<^verbatim>\<open>" 100"\<close>: the string
  holds the one integer 100 (and \<^verbatim>\<open>sscanf\<close> would read it, skipping the white
  space), which is neither 0 nor 20000 or more, yet the test of the first character at
  line 407 rejects the action, and \<^verbatim>\<open>delay[1]\<close> is left 0 rather than derived as 150.
  It also fails on \<^verbatim>\<open>"0000000100"\<close>, the integer 100 written with ten digits: the
  field width of \<^verbatim>\<open>%8d\<close> makes of it the two integers 1 and 0, and the action is
  rejected.
\<close>

theorem usleep_rules_counterexample:
  "decide_subinfo example_env
     (zero_action\<lparr>atype := Some ''delay,usleep'', subinfo := Some '' 100'',
                  idx := ACTION_DELAY_USLEEP\<rparr>) empty_state =
   Inr (- EINVAL, zero_action\<lparr>atype := Some ''delay,usleep'', subinfo := Some '' 100'',
                         idx := ACTION_DELAY_USLEEP, delay0 := 0, delay1 := 0\<rparr>,
        empty_state) \<and>
   sscanf_d8_d8 '' 100'' = [100] \<and>
   decide_subinfo example_env
     (zero_action\<lparr>atype := Some ''delay,usleep'', subinfo := Some ''0000000100'',
                  idx := ACTION_DELAY_USLEEP\<rparr>) empty_state =
   Inr (- EINVAL, zero_action\<lparr>atype := Some ''delay,usleep'', subinfo := Some ''0000000100'',
                         idx := ACTION_DELAY_USLEEP, delay0 := 1, delay1 := 0\<rparr>,
        empty_state) \<and>
   decimal ''0000000100'' 0 = 100"
  by (simp add: decide_subinfo_def decide_subinfo_usleep_def zero_action_def ACTION_defs
      time_defs scan_defs EINVAL_def Let_def)

subsection \<open>Ranged sleeps with more than two integers\<close>

text \<open>
  Claim C6 says that a \<^verbatim>\<open>delay,usleep\<close> parameter with more than two integers is
  rejected. The code does test \<^verbatim>\<open>ret > 2\<close> (line 421), but \<^verbatim>\<open>sscanf\<close> with the two
  conversions of \<^verbatim>\<open>"%8d %8d"\<close> never returns more than 2: on \<^verbatim>\<open>"10000 11000 12000"\<close>
  it returns 2, the third integer is not read, and \<^verbatim>\<open>decide_subinfo\<close> accepts the
  action (its result is 2, not negative) with the range 10000 to 11000.
\<close>

theorem usleep_three_integers_accepted:
  "decide_subinfo e
     (zero_action\<lparr>atype := Some ''delay,usleep'', subinfo := Some ''10000 11000 12000'',
                  idx := ACTION_DELAY_USLEEP\<rparr>) s =
   Inr (2, zero_action\<lparr>atype := Some ''delay,usleep'', subinfo := Some ''10000 11000 12000'',
                         idx := ACTION_DELAY_USLEEP, delay0 := 10000, delay1 := 11000\<rparr>, s)"
  by (simp add: decide_subinfo_def decide_subinfo_usleep_def zero_action_def ACTION_defs
      time_defs scan_defs EINVAL_def Let_def)

subsection \<open>A timer start without a delay\<close>

text \<open>
  Claim C7 says that a malformed \<^verbatim>\<open>timer,start\<close> parameter yields a failure result.
  On \<^verbatim>\<open>"loading"\<close> (a name and no delay) \<^verbatim>\<open>sscanf\<close> returns 1, the code sets
  \<^verbatim>\<open>ret = -EINVAL\<close> and does not assign \<^verbatim>\<open>action->timer\<close>, which is still \<^verbatim>\<open>NULL\<close>
  from \<^verbatim>\<open>kzalloc\<close>; line 468 then reads \<^verbatim>\<open>action->timer->delay\<close>: a \<^verbatim>\<open>NULL\<close>
  pointer dereference instead of a failure result.
\<close>

theorem timer_start_malformed_null_deref:
  "decide_subinfo e
     (zero_action\<lparr>atype := Some ''timer,start'', subinfo := Some ''loading'',
                  idx := ACTION_TIMER_START\<rparr>) s = Inl (NULL_DEREF, s)"
  by (simp add: decide_subinfo_def decide_subinfo_timer_start_def deref_timer_def zero_action_def
      ACTION_defs scan_defs Let_def)

subsection \<open>Building without a panel\<close>

text \<open>
  Claim C9. While \<^verbatim>\<open>lcdtype\<close> is zero, an iteration of the build loop whose type string
  begins neither with \<^verbatim>\<open>delay\<close> nor with \<^verbatim>\<open>timer\<close> is skipped (line 535: no action is
  allocated and nothing is resolved); and a build that returns has called no hardware
  resolver (the only call it adds to the trace is its own) and, when it returns without
  failure, has added to the list only actions of a delay or timer kind. (A build that
  returns a failure has processed no pair: it has added the placeholder of claim C4.)
\<close>

theorem no_panel_build:
  assumes "lcdtype e = 0"
  shows "(\<forall>np strs count i s.
            type_prop np = Some strs \<and> i * 2 + 1 < length strs \<and>
            \<not> STRNEQ ''delay'' (strs ! (i * 2)) \<and> \<not> STRNEQ ''timer'' (strs ! (i * 2)) \<longrightarrow>
            make_list_body e np k count i s = Skipped) \<and>
         (\<forall>ret s'. k < length (dt_nodes s) \<and> make_list e dev k name s = Inr (ret, s') \<longrightarrow>
            trace s' = trace s @ [Make_list name] \<and>
            (if 0 \<le> ret
             then \<exists>new. lh_of s' k = lh_of s k @ new \<and> (\<forall>a\<in>set new. is_delay_or_timer a)
             else lh_of s' k = lh_of s k @ [zero_action]))"
proof -
  have skip: "\<forall>np strs count i s.
      type_prop np = Some strs \<and> i * 2 + 1 < length strs \<and>
      \<not> STRNEQ ''delay'' (strs ! (i * 2)) \<and> \<not> STRNEQ ''timer'' (strs ! (i * 2)) \<longrightarrow>
      make_list_body e np k count i s = Skipped"
    using assms by (simp add: make_list_body_def of_property_read_string_index_def)
  have built: "trace s' = trace s @ [Make_list name] \<and>
      (if 0 \<le> ret
       then \<exists>new. lh_of s' k = lh_of s k @ new \<and> (\<forall>a\<in>set new. is_delay_or_timer a)
       else lh_of s' k = lh_of s k @ [zero_action])"
    if a: "k < length (dt_nodes s) \<and> make_list e dev k name s = Inr (ret, s')"
    for ret s'
  proof -
    consider (placeholder) "make_list e dev k name s =
        Inr (- EINVAL, list_add_tail zero_action k (log_event (Make_list name) s))"
      | (loop) np count where "make_list e dev k name s =
        make_list_for e np k count 0 None 0 (log_event (Make_list name) s)"
      using make_list_cases [of e dev k name s] by blast
    then show ?thesis
    proof cases
      case placeholder
      with a have "ret = - EINVAL"
        and "s' = list_add_tail zero_action k (log_event (Make_list name) s)" by simp_all
      with a show ?thesis by (simp add: EINVAL_def lh_of_list_add_tail)
    next
      case loop
      with a have
        "make_list_for e np k count 0 None 0 (log_event (Make_list name) s) = Inr (ret, s')"
        by simp
      from make_list_for_Inr [OF this] a assms show ?thesis by simp
    qed
  qed
  from skip built show ?thesis by blast
qed

theorem no_panel_build_witness:
  "lcdtype no_panel_env = 0 \<and>
   make_list_body no_panel_env subnode_1 0 6 0 (fresh_state ''subnode_1'') = Skipped \<and>
   (\<exists>ret s'. make_list no_panel_env None 0 ''subnode_1'' (fresh_state ''subnode_1'') =
        Inr (ret, s') \<and> 0 \<le> ret \<and>
      lh_of s' 0 =
        [usleep_action ''10000 11000'' 10000 11000, usleep_action ''10000'' 10000 15000,
         zero_action\<lparr>atype := Some ''delay,msleep'', subinfo := Some ''30'',
                     idx := ACTION_DELAY_MSLEEP, delay0 := 30\<rparr>] \<and>
      list_all is_delay_or_timer (lh_of s' 0) \<and>
      trace s' = [Make_list ''subnode_1''])"
proof -
  have zero: "lcdtype no_panel_env = 0"
    by (simp add: no_panel_env_def example_env_def)
  define s' where "s' =
       \<lparr>dt_nodes = [\<lparr>dt_name = ''subnode_1'', dt_list =
          [usleep_action ''10000 11000'' 10000 11000, usleep_action ''10000'' 10000 15000,
           zero_action\<lparr>atype := Some ''delay,msleep'', subinfo := Some ''30'',
                       idx := ACTION_DELAY_MSLEEP, delay0 := 30\<rparr>]\<rparr>],
        timers = [], clock_reads = 0, trace = [Make_list ''subnode_1'']\<rparr>"
  have "make_list no_panel_env None 0 ''subnode_1'' (fresh_state ''subnode_1'') =
     Inr (0,
       \<lparr>dt_nodes = [\<lparr>dt_name = ''subnode_1'', dt_list =
          [usleep_action ''10000 11000'' 10000 11000, usleep_action ''10000'' 10000 15000,
           zero_action\<lparr>atype := Some ''delay,msleep'', subinfo := Some ''30'',
                       idx := ACTION_DELAY_MSLEEP, delay0 := 30\<rparr>]\<rparr>],
        timers = [], clock_reads = 0, trace = [Make_list ''subnode_1'']\<rparr>)"
    by code_simp
  then have ev: "make_list no_panel_env None 0 ''subnode_1'' (fresh_state ''subnode_1'') =
     Inr (0, s')"
    by (simp add: s'_def)
  have lh: "lh_of s' 0 =
        [usleep_action ''10000 11000'' 10000 11000, usleep_action ''10000'' 10000 15000,
         zero_action\<lparr>atype := Some ''delay,msleep'', subinfo := Some ''30'',
                     idx := ACTION_DELAY_MSLEEP, delay0 := 30\<rparr>]"
    by (simp add: s'_def lh_of_def)
  note inst = no_panel_build [OF zero, where k = "0" and dev = None and name = "''subnode_1''"
      and s = "fresh_state ''subnode_1''"]
  from inst have "type_prop subnode_1 = Some (the (type_prop subnode_1)) \<and>
      0 * 2 + 1 < length (the (type_prop subnode_1)) \<and>
      \<not> STRNEQ ''delay'' (the (type_prop subnode_1) ! (0 * 2)) \<and>
      \<not> STRNEQ ''timer'' (the (type_prop subnode_1) ! (0 * 2)) \<longrightarrow>
      make_list_body no_panel_env subnode_1 0 6 0 (fresh_state ''subnode_1'') = Skipped"
    by blast
  then have skip: "make_list_body no_panel_env subnode_1 0 6 0 (fresh_state ''subnode_1'') = Skipped"
    by (simp add: subnode_1_def STRNEQ_def)
  from inst ev have built:
    "(\<exists>new. lh_of s' 0 = lh_of (fresh_state ''subnode_1'') 0 @ new \<and>
        (\<forall>a\<in>set new. is_delay_or_timer a)) \<and>
     trace s' = trace (fresh_state ''subnode_1'') @ [Make_list ''subnode_1'']"
    by (auto simp add: fresh_state_def)
  then have "list_all is_delay_or_timer (lh_of s' 0) \<and> trace s' = [Make_list ''subnode_1'']"
    by (auto simp: fresh_state_def lh_of_def list_all_iff)
  with zero skip ev lh show ?thesis by auto
qed

subsection \<open>A build that fails\<close>

text \<open>
  Claim C8, amended. When an iteration of the build loop ends with a \<^verbatim>\<open>break\<close> (the
  action fails \<^verbatim>\<open>decide_type\<close> or \<^verbatim>\<open>decide_subinfo\<close>, the result \<open>r\<close> is negative),
  the build stops there, whatever pairs follow: the failing action is freed
  (\<^verbatim>\<open>kfree\<close>) without having been added to the list, and \<^verbatim>\<open>make_list\<close> ends in
  \<^verbatim>\<open>BUG()\<close>. The list is then exactly as it was before that iteration: nothing is
  discarded. More generally, in whatever way the loop ends early, the list it leaves
  extends the list it started from, so the actions added earlier in the build are still
  in the cached list.
\<close>

theorem build_abort:
  "(i < count \<and> make_list_body e np k count i s = Broke a r s2 \<longrightarrow>
      r < 0 \<and>
      make_list_for e np k count i cur ret s = Inl (BUG, log_event (Kfree_action a) s2) \<and>
      lh_of (log_event (Kfree_action a) s2) k = lh_of s k) \<and>
   (k < length (dt_nodes s) \<and> make_list_for e np k count i cur ret s = Inl (f, s') \<longrightarrow>
      (\<exists>new. lh_of s' k = lh_of s k @ new))"
proof (intro conjI impI)
  assume a: "i < count \<and> make_list_body e np k count i s = Broke a r s2"
  from make_list_body_Broke [of e np k count i s a r s2] a
  have r: "r < 0" and nodes: "dt_nodes s2 = dt_nodes s" by simp_all
  from r show "r < 0" .
  from a r show "make_list_for e np k count i cur ret s = Inl (BUG, log_event (Kfree_action a) s2)"
    by (simp add: make_list_for.simps [of e np k count i] make_list_exit_def)
  from nodes have "lh_of s2 k = lh_of s k" by (rule lh_of_cong)
  then show "lh_of (log_event (Kfree_action a) s2) k = lh_of s k" by simp
next
  assume "k < length (dt_nodes s) \<and> make_list_for e np k count i cur ret s = Inl (f, s')"
  then show "\<exists>new. lh_of s' k = lh_of s k @ new"
    using make_list_for_Inl [of e np k count i cur ret s f s'] by simp
qed

theorem build_abort_witness:
  "make_list_for example_env bad_second 0 3 1 (Some (usleep_action ''10000'' 10000 15000)) 1
     (list_add_tail (usleep_action ''10000'' 10000 15000) 0 (fresh_state ''bad_second'')) =
   Inl (BUG, log_event (Kfree_action (usleep_action ''0'' 0 1))
     (list_add_tail (usleep_action ''10000'' 10000 15000) 0 (fresh_state ''bad_second''))) \<and>
   lh_of (log_event (Kfree_action (usleep_action ''0'' 0 1))
     (list_add_tail (usleep_action ''10000'' 10000 15000) 0 (fresh_state ''bad_second''))) 0 =
   [usleep_action ''10000'' 10000 15000]"
proof -
  have body: "make_list_body example_env bad_second 0 3 1
      (list_add_tail (usleep_action ''10000'' 10000 15000) 0 (fresh_state ''bad_second'')) =
    Broke (usleep_action ''0'' 0 1) (- 22)
      (list_add_tail (usleep_action ''10000'' 10000 15000) 0 (fresh_state ''bad_second''))"
    by code_simp
  have lh: "lh_of (list_add_tail (usleep_action ''10000'' 10000 15000) 0
      (fresh_state ''bad_second'')) 0 = [usleep_action ''10000'' 10000 15000]"
    by (simp add: lh_of_def list_add_tail_def fresh_state_def)
  from build_abort [of 1 3 example_env bad_second 0
      "list_add_tail (usleep_action ''10000'' 10000 15000) 0 (fresh_state ''bad_second'')"
      "usleep_action ''0'' 0 1" "- 22"
      "list_add_tail (usleep_action ''10000'' 10000 15000) 0 (fresh_state ''bad_second'')"
      "Some (usleep_action ''10000'' 10000 15000)" 1] body lh
  show ?thesis by simp
qed

text \<open>
  Claim C8 as stated fails where it says that the partially built list is discarded. The
  sequence \<^verbatim>\<open>bad_second\<close> has a valid first pair and an invalid second one
  (\<^verbatim>\<open>"delay,usleep", "0"\<close>): the build ends in \<^verbatim>\<open>BUG()\<close> with the first action still
  in the cached list.
\<close>

theorem build_abort_counterexample:
  "make_list example_env None 0 ''bad_second'' (fresh_state ''bad_second'') =
     Inl (BUG,
       \<lparr>dt_nodes = [\<lparr>dt_name = ''bad_second'', dt_list = [usleep_action ''10000'' 10000 15000]\<rparr>],
        timers = [], clock_reads = 0,
        trace = [Make_list ''bad_second'', Kfree_action (usleep_action ''0'' 0 1)]\<rparr>)"
  by code_simp

subsection \<open>A declaration with an invalid count\<close>

text \<open>
  Claim C4. When the \<^verbatim>\<open>type\<close> property of the sequence's node has a negative (the
  property is absent), zero or odd number of strings, and \<^verbatim>\<open>run_list\<close> finds the
  sequence's list empty, then \<^verbatim>\<open>make_list\<close> fails with \<^verbatim>\<open>-EINVAL\<close> and leaves the
  placeholder in the list; \<^verbatim>\<open>run_list\<close> returns with the list
  \<open>[zero_action]\<close> cached under the name and only the call of \<^verbatim>\<open>make_list\<close> added to
  the trace; and a further \<^verbatim>\<open>run_list\<close> of that name returns the state as it is: it
  does not build again and has no effect, and neither has any later one.
\<close>

theorem bad_count_placeholder:
  assumes "board_node e dev = Some n"
    and "of_find_node_by_name e (of_parse_phandle e n) name = Some np"
    and "of_property_count_strings (type_prop np) < 0 \<or>
         of_property_count_strings (type_prop np) = 0 \<or>
         of_property_count_strings (type_prop np) mod 2 \<noteq> 0"
    and "find_list name s = Inr (k, s1)" and "lh_of s1 k = []"
  shows "let s2 = list_add_tail zero_action k (log_event (Make_list name) s1)
         in make_list e dev k name s1 = Inr (- EINVAL, s2) \<and>
            run_list e dev name s = Inr s2 \<and> cached s2 name = Some [zero_action] \<and>
            trace s2 = trace s @ [Make_list name] \<and> run_list e dev name s2 = Inr s2"
proof -
  define s2 where "s2 = list_add_tail zero_action k (log_event (Make_list name) s1)"
  have ml: "make_list e dev k name s1 = Inr (- EINVAL, s2)"
    using assms(1-3) by (auto simp: make_list_def s2_def Let_def)
  from find_list_Inr [OF assms(4)] have k: "k < length (dt_nodes s1)"
    and found: "find_list_from name (dt_nodes s1) 0 = Inr (k, True)"
    and tr1: "trace s1 = trace s" by simp_all
  from k assms(5) have lh: "lh_of s2 k = [zero_action]"
    by (simp add: s2_def lh_of_list_add_tail)
  have first: "run_list e dev name s = Inr s2"
    using assms(4,5) ml lh by (simp add: run_list_def do_list_zero_action)
  have names: "map dt_name (dt_nodes s2) = map dt_name (dt_nodes s1)"
    by (simp add: s2_def)
  from cached_eq [OF names found] lh have c: "cached s2 name = Some [zero_action]" by simp
  from tr1 have tr: "trace s2 = trace s @ [Make_list name]" by (simp add: s2_def)
  from run_list_cached [OF c, of e dev] have again: "run_list e dev name s2 = Inr s2"
    by (simp add: do_list_zero_action)
  from ml first c tr again show ?thesis by (simp add: s2_def Let_def)
qed

theorem bad_count_placeholder_witness:
  "(make_list example_env None 0 ''odd'' (fresh_state ''odd'') =
      Inr (- EINVAL, inert_state ''odd'') \<and>
    run_list example_env None ''odd'' empty_state = Inr (inert_state ''odd'') \<and>
    cached (inert_state ''odd'') ''odd'' = Some [zero_action] \<and>
    run_list example_env None ''odd'' (inert_state ''odd'') = Inr (inert_state ''odd'')) \<and>
   (make_list example_env None 0 ''absent'' (fresh_state ''absent'') =
      Inr (- EINVAL, inert_state ''absent'') \<and>
    run_list example_env None ''absent'' empty_state = Inr (inert_state ''absent'') \<and>
    cached (inert_state ''absent'') ''absent'' = Some [zero_action] \<and>
    run_list example_env None ''absent'' (inert_state ''absent'') = Inr (inert_state ''absent'')) \<and>
   (make_list example_env None 0 ''none'' (fresh_state ''none'') =
      Inr (- EINVAL, inert_state ''none'') \<and>
    run_list example_env None ''none'' empty_state = Inr (inert_state ''none'') \<and>
    cached (inert_state ''none'') ''none'' = Some [zero_action] \<and>
    run_list example_env None ''none'' (inert_state ''none'') = Inr (inert_state ''none''))"
proof -
  have board: "board_node example_env None = Some 0"
    by (simp add: board_node_def example_env_def)
  have node: "of_find_node_by_name example_env (of_parse_phandle example_env 0) ''odd'' =
      Some odd_node"
    "of_find_node_by_name example_env (of_parse_phandle example_env 0) ''absent'' =
      Some absent_node"
    "of_find_node_by_name example_env (of_parse_phandle example_env 0) ''none'' =
      Some none_node"
    by (simp_all add: example_env_def example_node_def)
  have count: "of_property_count_strings (type_prop odd_node) mod 2 \<noteq> 0"
    "of_property_count_strings (type_prop absent_node) < 0"
    "of_property_count_strings (type_prop none_node) = 0"
    by (simp_all add: of_property_count_strings_def odd_node_def absent_node_def none_node_def
        EINVAL_def)
  have fl: "find_list name empty_state = Inr (0, fresh_state name)" for name
    by (simp add: find_list_def empty_state_def fresh_state_def)
  have empty: "lh_of (fresh_state name) 0 = []" for name
    by (simp add: fresh_state_def lh_of_def)
  have s2: "list_add_tail zero_action 0 (log_event (Make_list name) (fresh_state name)) =
      inert_state name" for name
    by (simp add: list_add_tail_def log_event_def fresh_state_def inert_state_def)
  from bad_count_placeholder [OF board node(1) _ fl empty] count(1)
  have odd: "make_list example_env None 0 ''odd'' (fresh_state ''odd'') =
      Inr (- EINVAL, inert_state ''odd'') \<and>
    run_list example_env None ''odd'' empty_state = Inr (inert_state ''odd'') \<and>
    cached (inert_state ''odd'') ''odd'' = Some [zero_action] \<and>
    run_list example_env None ''odd'' (inert_state ''odd'') = Inr (inert_state ''odd'')"
    by (simp add: s2 Let_def)
  from bad_count_placeholder [OF board node(2) _ fl empty] count(2)
  have absent: "make_list example_env None 0 ''absent'' (fresh_state ''absent'') =
      Inr (- EINVAL, inert_state ''absent'') \<and>
    run_list example_env None ''absent'' empty_state = Inr (inert_state ''absent'') \<and>
    cached (inert_state ''absent'') ''absent'' = Some [zero_action] \<and>
    run_list example_env None ''absent'' (inert_state ''absent'') = Inr (inert_state ''absent'')"
    by (simp add: s2 Let_def)
  from bad_count_placeholder [OF board node(3) _ fl empty] count(3)
  have none: "make_list example_env None 0 ''none'' (fresh_state ''none'') =
      Inr (- EINVAL, inert_state ''none'') \<and>
    run_list example_env None ''none'' empty_state = Inr (inert_state ''none'') \<and>
    cached (inert_state ''none'') ''none'' = Some [zero_action] \<and>
    run_list example_env None ''none'' (inert_state ''none'') = Inr (inert_state ''none'')"
    by (simp add: s2 Let_def)
  from odd absent none show ?thesis by (intro conjI) simp_all
qed

subsection \<open>Awaiting a timer\<close>

text \<open>
  Claim C1, amended. When \<^verbatim>\<open>do_list\<close> executes a timer-await action (kind
  \<^verbatim>\<open>ACTION_TIMER_DELAY\<close>) whose timer is \<open>t\<close>, with \<open>now\<close> the clock reading it takes and
  \<open>us_delta = ktime_us_delta(t.end, now)\<close>, the sleeps it adds to the trace are:
  \<^verbatim>\<open>msleep(t.delay)\<close> when \<open>t.end\<close> is zero; nothing when \<open>t.end\<close> is not zero and
  \<open>now \<ge> t.end\<close>; and when \<open>now < t.end\<close>: nothing if \<open>us_delta\<close> is 0 or exceeds
  \<^verbatim>\<open>UINT_MAX\<close> (the guard of line 619), else
  \<^verbatim>\<open>usleep_range(us_delta, us_delta + (us_delta >> 1))\<close> if \<open>us_delta < 20000\<close>, else
  \<^verbatim>\<open>msleep(us_delta / 1000)\<close>. Here \<open>us_delta\<close> is the remaining time in whole
  microseconds, \<open>(t.end - now) div 1000\<close>, as long as the remaining time is below
  \<open>2^63\<close> ns. The result \<^verbatim>\<open>ret\<close> is not changed.
\<close>

theorem timer_await_sleep:
  assumes "idx action = ACTION_TIMER_DELAY" and "timer action = Some p" and "p < length (timers s)"
  shows "(\<exists>s'. do_action e action ret s = Inr (ret, s') \<and>
          trace s' = trace s @
            (let t = timers s ! p; now = local_clock e (clock_reads s);
                 us_delta = ktime_us_delta (timer_end t) now
             in if timer_end t = 0 then [Msleep (timer_delay t)]
                else if now < timer_end t then
                  (if us_delta = 0 \<or> UINT_MAX < us_delta then []
                   else if us_delta < 20000
                   then [Usleep_range us_delta (us_delta + drop_bit 1 us_delta)]
                   else [Msleep (ucast (us_delta div 1000))])
                else [])) \<and>
         (local_clock e (clock_reads s) < timer_end (timers s ! p) \<and>
          timer_end (timers s ! p) - local_clock e (clock_reads s) < 2 ^ 63 \<longrightarrow>
            unat (ktime_us_delta (timer_end (timers s ! p)) (local_clock e (clock_reads s))) =
              (unat (timer_end (timers s ! p)) - unat (local_clock e (clock_reads s))) div 1000)"
  using assms
  by (simp add: do_action_def ACTION_defs deref_timer_def do_timer_delay_def Let_def time_defs
      ktime_us_delta_unat)

theorem timer_await_sleep_witness:
  "(\<exists>s'. do_action (clock_env 290000000) await_action 0 (timer_state 0) = Inr (0, s') \<and>
         trace s' = [Msleep 300]) \<and>
   (\<exists>s'. do_action (clock_env 290000000) await_action 0 (timer_state 300000000) = Inr (0, s') \<and>
         trace s' = [Usleep_range 10000 15000]) \<and>
   (\<exists>s'. do_action (clock_env 100000000) await_action 0 (timer_state 300000000) = Inr (0, s') \<and>
         trace s' = [Msleep 200]) \<and>
   (\<exists>s'. do_action (clock_env 310000000) await_action 0 (timer_state 300000000) = Inr (0, s') \<and>
         trace s' = []) \<and>
   (\<exists>s'. do_action (clock_env 299999500) await_action 0 (timer_state 300000000) = Inr (0, s') \<and>
         trace s' = [])"
proof -
  have h: "idx await_action = ACTION_TIMER_DELAY" "timer await_action = Some 0"
    "0 < length (timers (timer_state end_time))" for end_time
    by (simp_all add: example_defs zero_action_def)
  show ?thesis
    using timer_await_sleep [OF h, where end_time1 = 0 and e = "clock_env 290000000" and ret = 0]
      timer_await_sleep [OF h, where end_time1 = 300000000 and e = "clock_env 290000000" and ret = 0]
      timer_await_sleep [OF h, where end_time1 = 300000000 and e = "clock_env 100000000" and ret = 0]
      timer_await_sleep [OF h, where end_time1 = 300000000 and e = "clock_env 310000000" and ret = 0]
      timer_await_sleep [OF h, where end_time1 = 300000000 and e = "clock_env 299999500" and ret = 0]
    by (simp add: example_defs time_defs ktime_us_delta_def Let_def)
qed

text \<open>
  Claim C1 as stated fails at the guard: the timer is started with 300 ms at time 0 (so
  it ends at 300000000 ns) and awaited at 299999500 ns, strictly before the end; the
  remaining 500 ns are 0 whole microseconds, and the await adds no sleep to the trace.
\<close>

theorem timer_await_guard_counterexample:
  "run_list (clock_env 299999500) None ''subnode_2'' empty_state =
     Inr \<lparr>dt_nodes = [\<lparr>dt_name = ''subnode_2'', dt_list = [start_action ''loading 300'']\<rparr>],
          timers = [loading_timer 0 300000000 0 300], clock_reads = 1,
          trace = [Make_list ''subnode_2'']\<rparr> \<and>
   (299999500 :: u64) < 300000000 \<and>
   run_list (clock_env 299999500) None ''subnode_3''
     \<lparr>dt_nodes = [\<lparr>dt_name = ''subnode_2'', dt_list = [start_action ''loading 300'']\<rparr>],
      timers = [loading_timer 0 300000000 0 300], clock_reads = 1,
      trace = [Make_list ''subnode_2'']\<rparr> =
     Inr \<lparr>dt_nodes = [\<lparr>dt_name = ''subnode_2'', dt_list = [start_action ''loading 300'']\<rparr>,
                      \<lparr>dt_name = ''subnode_3'', dt_list = [await_action]\<rparr>],
          timers = [loading_timer 0 300000000 299999500 300], clock_reads = 2,
          trace = [Make_list ''subnode_2'', Make_list ''subnode_3'']\<rparr>"
  by code_simp

text \<open>
  Claim C3 says that the end time is zero after every await. The \<^verbatim>\<open>break\<close> of line 620
  leaves the \<^verbatim>\<open>switch\<close> before the fall-through into \<^verbatim>\<open>case ACTION_TIMER_CLEAR\<close>:
  a timer started with \<^verbatim>\<open>"loading 5000000"\<close> (5000 s) at time 0 and awaited at 1000 ns
  has \<open>us_delta = 4999999999 > UINT_MAX\<close>; the await returns without sleeping and the
  end time is still 5000000000000, not zero.
\<close>

theorem timer_await_break_skips_clear:
  "run_list (clock_env 1000) None ''long_start'' empty_state =
     Inr \<lparr>dt_nodes = [\<lparr>dt_name = ''long_start'', dt_list = [start_action ''loading 5000000'']\<rparr>],
          timers = [loading_timer 0 5000000000000 0 5000000], clock_reads = 1,
          trace = [Make_list ''long_start'']\<rparr> \<and>
   run_list (clock_env 1000) None ''subnode_3''
     \<lparr>dt_nodes = [\<lparr>dt_name = ''long_start'', dt_list = [start_action ''loading 5000000'']\<rparr>],
      timers = [loading_timer 0 5000000000000 0 5000000], clock_reads = 1,
      trace = [Make_list ''long_start'']\<rparr> =
     Inr \<lparr>dt_nodes = [\<lparr>dt_name = ''long_start'', dt_list = [start_action ''loading 5000000'']\<rparr>,
                      \<lparr>dt_name = ''subnode_3'', dt_list = [await_action]\<rparr>],
          timers = [loading_timer 0 5000000000000 1000 5000000], clock_reads = 2,
          trace = [Make_list ''long_start'', Make_list ''subnode_3'']\<rparr>"
  by code_simp

subsection \<open>The placeholder action\<close>

text \<open>
  Claim C10. Executing a list that holds only the zeroed placeholder action has no effect
  and no error: the placeholder's kind is \<^verbatim>\<open>ACTION_DUMMY\<close>, \<^verbatim>\<open>do_list\<close> returns 0 and
  leaves the state (trace, timers, lists) as it was. This is not the \<^verbatim>\<open>default\<close>
  branch: an action of an unknown kind (here \<^verbatim>\<open>ACTION_MAX\<close>) sets \<^verbatim>\<open>ret = -EINVAL\<close>
  and ends in \<^verbatim>\<open>BUG()\<close>.
\<close>

theorem placeholder_is_noop:
  "idx zero_action = ACTION_DUMMY \<and>
   do_list e [zero_action] s = Inr (0, s) \<and>
   do_list e [zero_action\<lparr>idx := ACTION_MAX\<rparr>] s = Inl (BUG, s)"
  by (simp add: do_list_def do_action_def zero_action_def ACTION_defs EINVAL_def)

theorem placeholder_is_noop_witness:
  "idx zero_action = ACTION_DUMMY \<and>
   do_list example_env [zero_action] empty_state = Inr (0, empty_state) \<and>
   do_list example_env [zero_action\<lparr>idx := ACTION_MAX\<rparr>] empty_state = Inl (BUG, empty_state)"
  by (rule placeholder_is_noop)

subsection \<open>Building once, executing every time\<close>

text \<open>
  Claim C2, amended. \<^verbatim>\<open>run_list\<close> builds exactly when the list cached under the name
  is empty or not there yet, and it executes in either case.

  \<^item> When a non-empty list \<open>lh\<close> is cached, \<^verbatim>\<open>run_list\<close> is \<^verbatim>\<open>do_list\<close> on
    \<open>lh\<close> and nothing else: if it returns, the same list is still cached (so no later
    run builds either), \<^verbatim>\<open>make_list\<close> has not been called, no hardware resolver has
    been called, and the calls added to the trace are those of the executor's actuators.
  \<^item> When no list or an empty list is cached and \<^verbatim>\<open>find_list\<close> gives the node
    \<open>k\<close> of the name, \<^verbatim>\<open>run_list\<close> is \<^verbatim>\<open>make_list\<close> for that node followed, when
    \<^verbatim>\<open>make_list\<close> returns, by \<^verbatim>\<open>do_list\<close> on the list that the build has left
    there, in the state that the build has left; nothing is executed when the build ends
    in \<^verbatim>\<open>BUG()\<close>. A \<^verbatim>\<open>make_list\<close> that returns has been counted once and leaves its
    list cached under the name, and so does a \<^verbatim>\<open>run_list\<close> that returns, also when
    the build leaves the list empty, in which case the next run builds again.

  The witness runs the sequence \<^verbatim>\<open>gpio_sleep\<close> twice: the first run resolves the gpio
  once and executes the two actions, the second only executes them.
\<close>

theorem build_when_empty:
  "(cached s name = Some lh \<and> lh \<noteq> [] \<longrightarrow>
      run_list e dev name s = (case do_list e lh s of Inl f \<Rightarrow> Inl f | Inr (r, s') \<Rightarrow> Inr s') \<and>
      (\<forall>s'. run_list e dev name s = Inr s' \<longrightarrow>
          cached s' name = Some lh \<and> builds s' name = builds s name \<and>
          filter is_resolver (trace s') = filter is_resolver (trace s) \<and>
          (\<exists>evs. trace s' = trace s @ evs \<and> (\<forall>ev\<in>set evs. is_actuator ev)))) \<and>
   (cached s name = None \<or> cached s name = Some [] \<longrightarrow>
      (\<forall>k s1. find_list name s = Inr (k, s1) \<longrightarrow>
          run_list e dev name s =
            (case make_list e dev k name s1 of
               Inl f \<Rightarrow> Inl f
             | Inr (r, s2) \<Rightarrow>
                 (case do_list e (lh_of s2 k) s2 of Inl f \<Rightarrow> Inl f | Inr (r', s') \<Rightarrow> Inr s')) \<and>
          (\<forall>r s2. make_list e dev k name s1 = Inr (r, s2) \<longrightarrow>
              builds s2 name = builds s name + 1 \<and> cached s2 name = Some (lh_of s2 k))) \<and>
      (\<forall>s'. run_list e dev name s = Inr s' \<longrightarrow>
          builds s' name = builds s name + 1 \<and> cached s' name \<noteq> None))"
proof (intro conjI impI allI)
  assume "cached s name = Some lh \<and> lh \<noteq> []"
  then show "run_list e dev name s =
      (case do_list e lh s of Inl f \<Rightarrow> Inl f | Inr (r, s') \<Rightarrow> Inr s')"
    using run_list_cached [of s name lh e dev] by simp
next
  fix s'
  assume "cached s name = Some lh \<and> lh \<noteq> []" and "run_list e dev name s = Inr s'"
  then show "cached s' name = Some lh" "builds s' name = builds s name"
    "filter is_resolver (trace s') = filter is_resolver (trace s)"
    "\<exists>evs. trace s' = trace s @ evs \<and> (\<forall>ev\<in>set evs. is_actuator ev)"
    using run_list_cached_Inr [of s name lh e dev s'] by simp_all
next
  fix k s1
  assume "cached s name = None \<or> cached s name = Some []" and "find_list name s = Inr (k, s1)"
  then show "run_list e dev name s =
      (case make_list e dev k name s1 of
         Inl f \<Rightarrow> Inl f
       | Inr (r, s2) \<Rightarrow>
           (case do_list e (lh_of s2 k) s2 of Inl f \<Rightarrow> Inl f | Inr (r', s') \<Rightarrow> Inr s'))"
    by (rule run_list_build)
next
  fix k s1 r s2
  assume "find_list name s = Inr (k, s1)" and "make_list e dev k name s1 = Inr (r, s2)"
  then show "builds s2 name = builds s name + 1" "cached s2 name = Some (lh_of s2 k)"
    using make_list_built [of name s k s1 e dev r s2] by simp_all
next
  fix s'
  assume "cached s name = None \<or> cached s name = Some []" and "run_list e dev name s = Inr s'"
  then show "builds s' name = builds s name + 1" "cached s' name \<noteq> None"
    using run_list_build_Inr [of s name e dev s'] by simp_all
qed

theorem build_when_empty_witness:
  "run_list example_env None ''gpio_sleep'' empty_state = Inr built_state \<and>
   find_list ''gpio_sleep'' empty_state = Inr (0, fresh_state ''gpio_sleep'') \<and>
   make_list example_env None 0 ''gpio_sleep'' (fresh_state ''gpio_sleep'') =
     Inr (1, resolved_state) \<and>
   do_list example_env [gpio_high_action, usleep_action ''10000'' 10000 15000] resolved_state =
     Inr (0, built_state) \<and>
   builds built_state ''gpio_sleep'' = 1 \<and>
   (\<exists>s'. run_list example_env None ''gpio_sleep'' built_state = Inr s' \<and>
      cached s' ''gpio_sleep'' = Some [gpio_high_action, usleep_action ''10000'' 10000 15000] \<and>
      builds s' ''gpio_sleep'' = 1 \<and>
      filter is_resolver (trace s') = [Of_get_named_gpio ''gpio_lcd_en''] \<and>
      trace s' = trace built_state @
        [Gpio_request_one 5 True, Gpio_free 5, Usleep_range 10000 15000])"
proof -
  note inst = build_when_empty [where e = example_env and dev = None and name = "''gpio_sleep''"]
  have none: "cached empty_state ''gpio_sleep'' = None"
    by (simp add: cached_def empty_state_def)
  have fl: "find_list ''gpio_sleep'' empty_state = Inr (0, fresh_state ''gpio_sleep'')"
    by (simp add: find_list_def empty_state_def fresh_state_def)
  have ml: "make_list example_env None 0 ''gpio_sleep'' (fresh_state ''gpio_sleep'') =
      Inr (1, resolved_state)"
    by code_simp
  have lh: "lh_of resolved_state 0 = [gpio_high_action, usleep_action ''10000'' 10000 15000]"
    by (simp add: lh_of_def resolved_state_def)
  have dl: "do_list example_env [gpio_high_action, usleep_action ''10000'' 10000 15000]
      resolved_state = Inr (0, built_state)"
    by code_simp
  from inst [where s = empty_state] none fl
  have "run_list example_env None ''gpio_sleep'' empty_state =
      (case make_list example_env None 0 ''gpio_sleep'' (fresh_state ''gpio_sleep'') of
         Inl f \<Rightarrow> Inl f
       | Inr (r, s2) \<Rightarrow>
           (case do_list example_env (lh_of s2 0) s2 of Inl f \<Rightarrow> Inl f | Inr (r', s') \<Rightarrow> Inr s'))"
    by blast
  with ml lh dl have first: "run_list example_env None ''gpio_sleep'' empty_state = Inr built_state"
    by simp
  have some: "cached built_state ''gpio_sleep'' =
      Some [gpio_high_action, usleep_action ''10000'' 10000 15000]"
    by (simp add: cached_def built_state_def STREQ_def lh_of_def)
  have exec: "do_list example_env [gpio_high_action, usleep_action ''10000'' 10000 15000]
      built_state =
    Inr (0, built_state\<lparr>trace := trace built_state @
        [Gpio_request_one 5 True, Gpio_free 5, Usleep_range 10000 15000]\<rparr>)"
    by code_simp
  from inst [where s = empty_state] none first
  have b1: "builds built_state ''gpio_sleep'' = builds empty_state ''gpio_sleep'' + 1"
    by blast
  then have b1': "builds built_state ''gpio_sleep'' = 1"
    by (simp add: builds_def empty_state_def)
  from inst [where s = built_state
      and lh = "[gpio_high_action, usleep_action ''10000'' 10000 15000]"] some
  have run: "run_list example_env None ''gpio_sleep'' built_state =
      (case do_list example_env [gpio_high_action, usleep_action ''10000'' 10000 15000]
          built_state of Inl f \<Rightarrow> Inl f | Inr (r, s') \<Rightarrow> Inr s')"
    and after: "\<forall>s'. run_list example_env None ''gpio_sleep'' built_state = Inr s' \<longrightarrow>
      cached s' ''gpio_sleep'' = Some [gpio_high_action, usleep_action ''10000'' 10000 15000] \<and>
      builds s' ''gpio_sleep'' = builds built_state ''gpio_sleep'' \<and>
      filter is_resolver (trace s') = filter is_resolver (trace built_state) \<and>
      (\<exists>evs. trace s' = trace built_state @ evs \<and> (\<forall>ev\<in>set evs. is_actuator ev))"
    by simp_all
  from run exec have second: "run_list example_env None ''gpio_sleep'' built_state =
      Inr (built_state\<lparr>trace := trace built_state @
        [Gpio_request_one 5 True, Gpio_free 5, Usleep_range 10000 15000]\<rparr>)"
    by simp
  have res: "filter is_resolver (trace built_state) = [Of_get_named_gpio ''gpio_lcd_en'']"
    by (simp add: built_state_def)
  from after second b1' res first fl ml dl show ?thesis by simp
qed

text \<open>
  Claim C2 as stated fails for a sequence whose build leaves the list empty: without a
  panel (\<^verbatim>\<open>lcdtype\<close> zero) the only pair of \<^verbatim>\<open>gpio_only\<close> is skipped, the list stays
  empty, and the second \<^verbatim>\<open>run_list\<close> calls \<^verbatim>\<open>make_list\<close> again: two builds for one
  name.
\<close>

theorem build_when_empty_counterexample:
  "run_list no_panel_env None ''gpio_only'' empty_state =
     Inr \<lparr>dt_nodes = [\<lparr>dt_name = ''gpio_only'', dt_list = []\<rparr>], timers = [], clock_reads = 0,
          trace = [Make_list ''gpio_only'']\<rparr> \<and>
   run_list no_panel_env None ''gpio_only''
     \<lparr>dt_nodes = [\<lparr>dt_name = ''gpio_only'', dt_list = []\<rparr>], timers = [], clock_reads = 0,
      trace = [Make_list ''gpio_only'']\<rparr> =
     Inr \<lparr>dt_nodes = [\<lparr>dt_name = ''gpio_only'', dt_list = []\<rparr>], timers = [], clock_reads = 0,
          trace = [Make_list ''gpio_only'', Make_list ''gpio_only'']\<rparr> \<and>
   builds \<lparr>dt_nodes = [\<lparr>dt_name = ''gpio_only'', dt_list = []\<rparr>], timers = [], clock_reads = 0,
           trace = [Make_list ''gpio_only'', Make_list ''gpio_only'']\<rparr> ''gpio_only'' = 2"
  by code_simp

end
